theory Spec2Isabelle
  imports Main
begin

section \<open>Python text primitives used by the processor\<close>

text \<open>
  A Python \<open>str\<close> is a sequence of Unicode code points. It is modelled as a
  \<open>string\<close> in which every \<open>char\<close> stands for one code point below 256 (the
  Latin-1 block), so \<open>length\<close> is Python's \<open>len\<close>. The character classes
  below are those of \<open>str.isdecimal\<close>, \<open>str.isdigit\<close>, \<open>str.isnumeric\<close>,
  \<open>str.isalpha\<close> and \<open>str.isalnum\<close> on that block.
\<close>

datatype error = ValueError | DatabaseError | DataFrameError

definition py_ord :: "char \<Rightarrow> int" where
  "py_ord c = of_char c"

definition py_isdecimal :: "char \<Rightarrow> bool" where
  "py_isdecimal c \<longleftrightarrow> 48 \<le> py_ord c \<and> py_ord c \<le> 57"

definition py_isdigit :: "char \<Rightarrow> bool" where
  "py_isdigit c \<longleftrightarrow> py_isdecimal c \<or> py_ord c = 178 \<or> py_ord c = 179 \<or> py_ord c = 185"

definition py_isnumeric :: "char \<Rightarrow> bool" where
  "py_isnumeric c \<longleftrightarrow> py_isdigit c \<or> (188 \<le> py_ord c \<and> py_ord c \<le> 190)"

definition py_isalpha :: "char \<Rightarrow> bool" where
  "py_isalpha c \<longleftrightarrow>
     (65 \<le> py_ord c \<and> py_ord c \<le> 90) \<or> (97 \<le> py_ord c \<and> py_ord c \<le> 122) \<or>
     py_ord c = 170 \<or> py_ord c = 181 \<or> py_ord c = 186 \<or>
     (192 \<le> py_ord c \<and> py_ord c \<le> 214) \<or> (216 \<le> py_ord c \<and> py_ord c \<le> 246) \<or>
     (248 \<le> py_ord c \<and> py_ord c \<le> 255)"

definition py_isalnum :: "char \<Rightarrow> bool" where
  "py_isalnum c \<longleftrightarrow> py_isalpha c \<or> py_isdecimal c \<or> py_isdigit c \<or> py_isnumeric c"

text \<open>\<open>s.isalnum()\<close>: every character is alphanumeric and there is at least one.\<close>

definition str_isalnum :: "string \<Rightarrow> bool" where
  "str_isalnum s \<longleftrightarrow> s \<noteq> [] \<and> list_all py_isalnum s"

text \<open>\<open>int(c)\<close> on a one-character string: only a decimal digit parses; anything
  else raises \<open>ValueError\<close>.\<close>

definition py_int :: "char \<Rightarrow> error + int" where
  "py_int c = (if py_isdecimal c then Inr (py_ord c - 48) else Inl ValueError)"

text \<open>\<open>str(n)\<close> on an integer: its decimal numeral, with a minus sign when negative.\<close>

definition digit_char :: "nat \<Rightarrow> char" where
  "digit_char d = char_of (48 + d)"

fun str_nat :: "nat \<Rightarrow> string" where
  "str_nat n = (if n < 10 then [digit_char n] else str_nat (n div 10) @ [digit_char (n mod 10)])"

definition py_str :: "int \<Rightarrow> string" where
  "py_str i = (if i < 0 then CHR ''-'' # str_nat (nat (- i)) else str_nat (nat i))"

section \<open>The check digit (\<open>compute_check_digit\<close> inside \<open>clean_cusips\<close>)\<close>

text \<open>The comprehension \<open>[int(c) if c.isdigit() else (ord(c) - ord("A") + 10) for c in cusip]\<close>;
  the first character on which \<open>int\<close> raises aborts it.\<close>

definition char_value :: "char \<Rightarrow> error + int" where
  "char_value c = (if py_isdigit c then py_int c else Inr (py_ord c - py_ord CHR ''A'' + 10))"

fun char_values :: "string \<Rightarrow> error + int list" where
  "char_values [] = Inr []"
| "char_values (c # cs) =
     (case char_value c of
        Inl e \<Rightarrow> Inl e
      | Inr v \<Rightarrow> (case char_values cs of Inl e \<Rightarrow> Inl e | Inr vs \<Rightarrow> Inr (v # vs)))"

text \<open>The loop \<open>for i, value in enumerate(values)\<close>, with the running index and the
  running total as arguments; \<open>sum(divmod(value, 10))\<close> is quotient plus remainder.\<close>

fun check_total :: "nat \<Rightarrow> int list \<Rightarrow> int \<Rightarrow> int" where
  "check_total i [] tot = tot"
| "check_total i (v # vs) tot =
     (let v' = (if i mod 2 = 1 then v * 2 else v)
      in check_total (Suc i) vs (tot + (v' div 10 + v' mod 10)))"

definition compute_check_digit :: "string \<Rightarrow> error + string" where
  "compute_check_digit cusip =
     (if length cusip \<noteq> 8 \<or> \<not> str_isalnum cusip then Inl ValueError
      else case char_values cusip of
             Inl e \<Rightarrow> Inl e
           | Inr vals \<Rightarrow>
               (let tot = check_total 0 vals 0;
                    check_digit = (10 - (tot mod 10)) mod 10
                in Inr (py_str check_digit)))"

section \<open>Checksum-assisted repair (\<open>find_valid_cusips\<close> inside \<open>clean_cusips\<close>)\<close>

text \<open>\<open>string.ascii_uppercase + string.digits\<close>.\<close>

definition alphabet :: string where
  "alphabet = ''ABCDEFGHIJKLMNOPQRSTUVWXYZ0123456789''"

text \<open>
  The \<open>for char in ...\<close> loop of the 7-character branch. Its body builds
  \<open>char + cusip\<close>, computes the check digit (which may raise) and returns the completed
  code as soon as one is in the reference set. \<open>Inr None\<close> means the loop ran to its
  end without returning.
\<close>

fun try_left_padding :: "string \<Rightarrow> string \<Rightarrow> string set \<Rightarrow> error + string option" where
  "try_left_padding [] cusip ftd_cusips = Inr None"
| "try_left_padding (ch # chs) cusip ftd_cusips =
     (let left_padded = ch # cusip
      in case compute_check_digit left_padded of
           Inl e \<Rightarrow> Inl e
         | Inr check_digit \<Rightarrow>
             (let full_cusip = left_padded @ check_digit
              in if full_cusip \<in> ftd_cusips then Inr (Some full_cusip)
                 else try_left_padding chs cusip ftd_cusips))"

text \<open>
  The statements under \<open># Try right padding\<close> stand after the loop, at the
  indentation of the \<open>for\<close>: they run once, with \<open>char\<close> still bound to the last
  character the loop visited, \<open>last alphabet\<close>.
\<close>

definition find_valid_cusips :: "string \<Rightarrow> string set \<Rightarrow> error + string option" where
  "find_valid_cusips cusip ftd_cusips =
     (if length cusip = 8 then
        (case compute_check_digit cusip of
           Inl e \<Rightarrow> Inl e
         | Inr check_digit \<Rightarrow>
             (let full_cusip = cusip @ check_digit
              in Inr (if full_cusip \<in> ftd_cusips then Some full_cusip else None)))
      else if length cusip = 7 then
        (case try_left_padding alphabet cusip ftd_cusips of
           Inl e \<Rightarrow> Inl e
         | Inr (Some full_cusip) \<Rightarrow> Inr (Some full_cusip)
         | Inr None \<Rightarrow>
             (let right_padded = cusip @ [last alphabet]
              in case compute_check_digit right_padded of
                   Inl e \<Rightarrow> Inl e
                 | Inr check_digit \<Rightarrow>
                     (let full_cusip = right_padded @ check_digit
                      in Inr (if full_cusip \<in> ftd_cusips then Some full_cusip else None))))
      else Inr None)"

section \<open>Short-code repair (the dataframe pipeline of \<open>clean_cusips\<close>)\<close>

text \<open>
  The two padding kernels of the dataframe library. \<open>str.zfill(n)\<close> pads the start with
  zeros up to length \<open>n\<close> and puts the zeros after a leading plus or minus sign;
  \<open>str.pad_end(n, c)\<close> appends \<open>c\<close> up to length \<open>n\<close>. Both return a string of
  length \<open>n\<close> or more unchanged. Lengths are counted in characters, which on ASCII
  text is also the number of bytes.
\<close>

definition zfill :: "nat \<Rightarrow> string \<Rightarrow> string" where
  "zfill n s =
     (if n \<le> length s then s
      else if s \<noteq> [] \<and> (hd s = CHR ''-'' \<or> hd s = CHR ''+'')
           then hd s # replicate (n - length s) CHR ''0'' @ tl s
           else replicate (n - length s) CHR ''0'' @ s)"

definition pad_end :: "nat \<Rightarrow> char \<Rightarrow> string \<Rightarrow> string" where
  "pad_end n fill s = s @ replicate (n - length s) fill"

text \<open>\<open>map_elements\<close> with a Python function: the column is mapped element by
  element, and the first exception aborts the whole expression.\<close>

fun map_elements :: "('a \<Rightarrow> error + 'b) \<Rightarrow> 'a list \<Rightarrow> error + 'b list" where
  "map_elements f [] = Inr []"
| "map_elements f (x # xs) =
     (case f x of
        Inl e \<Rightarrow> Inl e
      | Inr y \<Rightarrow> (case map_elements f xs of Inl e \<Rightarrow> Inl e | Inr ys \<Rightarrow> Inr (y # ys)))"

text \<open>\<open>dict(zip(keys, values))\<close> on a list of pairs: a later pair overrides an
  earlier one with the same key.\<close>

fun dict_update :: "('k \<times> 'v) list \<Rightarrow> ('k \<rightharpoonup> 'v) \<Rightarrow> ('k \<rightharpoonup> 'v)" where
  "dict_update [] m = m"
| "dict_update ((k, v) # kvs) m = dict_update kvs (m(k \<mapsto> v))"

definition py_dict :: "('k \<times> 'v) list \<Rightarrow> ('k \<rightharpoonup> 'v)" where
  "py_dict kvs = dict_update kvs Map.empty"

text \<open>
  The frames from \<open># 1. Check left padding\<close> to \<open>all_fixes\<close>. A frame with the
  columns \<open>cusip\<close> and \<open>fixed_cusip\<close> is a list of pairs; \<open>df_cusips\<close> is the
  column of distinct short codes.
\<close>

definition short_code_fixes :: "string set \<Rightarrow> string list \<Rightarrow> error + (string \<times> string) list" where
  "short_code_fixes ftd_cusips df_cusips =
     (let left_padded = map (\<lambda>c. (c, zfill 9 c)) df_cusips;
          left_matched = filter (\<lambda>(c, f). f \<in> ftd_cusips) left_padded;
          df_cusips_remaining1 = map fst (filter (\<lambda>(c, f). f \<notin> ftd_cusips) left_padded);
          right_padded = map (\<lambda>c. (c, pad_end 9 CHR ''0'' c)) df_cusips_remaining1;
          right_matched = filter (\<lambda>(c, f). f \<in> ftd_cusips) right_padded;
          df_cusips_remaining2 = map fst (filter (\<lambda>(c, f). f \<notin> ftd_cusips) right_padded)
      in case map_elements (\<lambda>x. find_valid_cusips x ftd_cusips) df_cusips_remaining2 of
           Inl e \<Rightarrow> Inl e
         | Inr fixed \<Rightarrow>
             (let with_fixed = zip df_cusips_remaining2 fixed;
                  checksum_matched =
                    map (\<lambda>(c, f). (c, the f)) (filter (\<lambda>(c, f). f \<noteq> None) with_fixed);
                  df_cusips_remaining3 = map fst (filter (\<lambda>(c, f). f = None) with_fixed);
                  lpad_remaining = map (\<lambda>c. (c, zfill 9 c)) df_cusips_remaining3
              in Inr (left_matched @ right_matched @ checksum_matched @ lpad_remaining)))"

definition cusip_fixes :: "string set \<Rightarrow> string list \<Rightarrow> error + (string \<rightharpoonup> string)" where
  "cusip_fixes ftd_cusips df_cusips =
     (case short_code_fixes ftd_cusips df_cusips of
        Inl e \<Rightarrow> Inl e
      | Inr all_fixes \<Rightarrow> Inr (py_dict all_fixes))"

text \<open>
  The pass read code by code, in terms of the functions above: the value of
  \<open>fixed_cusip\<close> in the frame that holds the code when \<open>find_valid_cusips\<close> does not
  raise. A code reaches \<open>find_valid_cusips\<close> when neither padding produced a member of
  the reference set.
\<close>

definition chosen_fix :: "string set \<Rightarrow> string \<Rightarrow> string" where
  "chosen_fix ftd c =
     (if zfill 9 c \<in> ftd then zfill 9 c
      else if pad_end 9 CHR ''0'' c \<in> ftd then pad_end 9 CHR ''0'' c
      else case find_valid_cusips c ftd of Inr (Some f) \<Rightarrow> f | _ \<Rightarrow> zfill 9 c)"

definition reaches_checksum :: "string set \<Rightarrow> string \<Rightarrow> bool" where
  "reaches_checksum ftd c \<longleftrightarrow> zfill 9 c \<notin> ftd \<and> pad_end 9 CHR ''0'' c \<notin> ftd"

section \<open>The holdings table and the database connection\<close>

text \<open>
  A row of \<open>holdings\<close>, with the three text columns that \<open>clean_cusips\<close> reads and
  writes; the rows considered have all three columns non-NULL. A connection holds the
  last committed state and the state the open transaction works on.
\<close>

record holding =
  cusip :: string
  titleofclass :: string
  nameofissuer :: string

record 's connection =
  committed :: 's
  working :: 's

definition commit :: "'s connection \<Rightarrow> 's connection" where
  "commit conn = conn\<lparr>committed := working conn\<rparr>"

definition rollback :: "'s connection \<Rightarrow> 's connection" where
  "rollback conn = conn\<lparr>working := committed conn\<rparr>"

text \<open>
  \<open>cur.execute\<close> of a data-changing statement. Whether the database accepts the
  statement is not decided by the program: \<open>db_ok\<close> gives the driver's verdict for each
  statement, and a rejected statement raises. (A statement with an empty \<open>IN\<close> list is
  one the database rejects; the examples below keep every list non-empty.)
\<close>

definition cur_execute ::
  "('st \<Rightarrow> bool) \<Rightarrow> 'st \<Rightarrow> ('s \<Rightarrow> 's) \<Rightarrow> 's connection \<Rightarrow> error + 's connection" where
  "cur_execute db_ok st upd conn =
     (if db_ok st then Inr (conn\<lparr>working := upd (working conn)\<rparr>) else Inl DatabaseError)"

section \<open>Remediation (\<open>clean_cusips\<close> and its call in \<open>post_process_data\<close>)\<close>

datatype statement =
  SelectHoldings | FixTitleOfClass | FixNameOfIssuer | FixShortCusips | CommitTransaction

text \<open>
  An exception raised while the transaction is open leaves the connection as it is at
  that point: the raised error is paired with that connection.
\<close>

definition at_connection :: "'s connection \<Rightarrow> error + 'a \<Rightarrow> (error \<times> 's connection) + 'a" where
  "at_connection conn r = (case r of Inl e \<Rightarrow> Inl (e, conn) | Inr x \<Rightarrow> Inr x)"

text \<open>
  \<open>ftd_cusips\<close>: \<open>pl.read_csv\<close> raises, or delivers the \<open>cusip\<close> column of the
  reference file either as text (its non-null cells) or, when every cell reads as a
  number, as a numeric column, on which the \<open>.str\<close> expressions raise.
\<close>

datatype csv_column = TextColumn "string list" | NumericColumn

definition load_ftd_cusips :: "(string \<Rightarrow> string) \<Rightarrow> error + csv_column \<Rightarrow> error + string set" where
  "load_ftd_cusips norm loaded =
     (case loaded of
        Inl e \<Rightarrow> Inl e
      | Inr NumericColumn \<Rightarrow> Inl DataFrameError
      | Inr (TextColumn cells) \<Rightarrow> Inr (set (map norm cells)))"

text \<open>
  \<open>SELECT DISTINCT cusip, titleofclass, nameofissuer FROM holdings\<close>, then
  \<open>pl.all().str.strip_chars().str.to_uppercase()\<close> on every column. The normaliser
  of the dataframe library is the parameter \<open>norm\<close>.
\<close>

definition normalise_row :: "(string \<Rightarrow> string) \<Rightarrow> holding \<Rightarrow> holding" where
  "normalise_row norm r =
     \<lparr>cusip = norm (cusip r), titleofclass = norm (titleofclass r),
      nameofissuer = norm (nameofissuer r)\<rparr>"

definition read_holdings :: "(string \<Rightarrow> string) \<Rightarrow> holding list \<Rightarrow> holding list" where
  "read_holdings norm tbl = map (normalise_row norm) (remdups tbl)"

text \<open>\<open>pl.read_database(query, connection=conn)\<close>: the query runs on the open
  connection and raises when the database rejects it.\<close>

definition read_database ::
  "(statement \<Rightarrow> bool) \<Rightarrow> (string \<Rightarrow> string) \<Rightarrow> holding list connection
     \<Rightarrow> error + holding list" where
  "read_database db_ok norm conn =
     (if db_ok SelectHoldings then Inr (read_holdings norm (working conn))
      else Inl DatabaseError)"

text \<open>The two \<open>UPDATE holdings SET ... WHERE column IN %s\<close> statements: the right-hand
  sides of \<open>SET\<close> read the row as it was before the statement.\<close>

definition update_titleofclass :: "string list \<Rightarrow> holding list \<Rightarrow> holding list" where
  "update_titleofclass vals tbl =
     map (\<lambda>r. if titleofclass r \<in> set vals
               then r\<lparr>cusip := titleofclass r, titleofclass := cusip r\<rparr>
               else r) tbl"

definition update_nameofissuer :: "string list \<Rightarrow> holding list \<Rightarrow> holding list" where
  "update_nameofissuer vals tbl =
     map (\<lambda>r. if nameofissuer r \<in> set vals
               then r\<lparr>cusip := nameofissuer r, nameofissuer := titleofclass r,
                      titleofclass := cusip r\<rparr>
               else r) tbl"

definition column_swap_stage ::
  "(statement \<Rightarrow> bool) \<Rightarrow> string set \<Rightarrow> holding list \<Rightarrow> holding list connection
     \<Rightarrow> error + holding list connection" where
  "column_swap_stage db_ok ftd_cusips df conn =
     (let cusips_in_titleofclass = filter (\<lambda>r. titleofclass r \<in> ftd_cusips) df;
          cusips_in_nameofissuer = filter (\<lambda>r. nameofissuer r \<in> ftd_cusips) df
      in case cur_execute db_ok FixTitleOfClass
                (update_titleofclass (map titleofclass cusips_in_titleofclass)) conn of
           Inl e \<Rightarrow> Inl e
         | Inr conn1 \<Rightarrow>
             cur_execute db_ok FixNameOfIssuer
               (update_nameofissuer (map nameofissuer cusips_in_nameofissuer)) conn1)"

text \<open>\<open>df_remaining\<close> and \<open>df_cusips\<close>: the distinct codes shorter than 9 characters
  of the rows with no reference code in either of the other two columns. The length of
  every remaining code is first stored in a column of 8-bit integers, which raises on a
  code of 128 characters or more.\<close>

definition short_cusips :: "string set \<Rightarrow> holding list \<Rightarrow> error + string list" where
  "short_cusips ftd_cusips df =
     (let df_remaining =
            filter (\<lambda>r. titleofclass r \<notin> ftd_cusips \<and> nameofissuer r \<notin> ftd_cusips) df
      in if list_ex (\<lambda>r. 127 < length (cusip r)) df_remaining then Inl DataFrameError
         else Inr (remdups (filter (\<lambda>c. length c < 9) (map cusip df_remaining))))"

text \<open>\<open>UPDATE holdings SET cusip = CASE cusip WHEN old THEN new ... ELSE cusip END
  WHERE cusip IN keys\<close>.\<close>

definition update_short_cusips :: "(string \<rightharpoonup> string) \<Rightarrow> holding list \<Rightarrow> holding list" where
  "update_short_cusips fixes tbl =
     map (\<lambda>r. case fixes (cusip r) of Some new \<Rightarrow> r\<lparr>cusip := new\<rparr> | None \<Rightarrow> r) tbl"

text \<open>
  The body of the \<open>try\<close> block of \<open>clean_cusips\<close>, statement by statement;
  \<open>loaded\<close> is what \<open>pl.read_csv\<close> did with the reference file. The only
  \<open>conn.commit()\<close> is its last statement but one. An exception comes with the
  connection as it is when the statement raises.
\<close>

definition clean_cusips_body ::
  "(string \<Rightarrow> string) \<Rightarrow> (statement \<Rightarrow> bool) \<Rightarrow> error + csv_column
     \<Rightarrow> holding list connection
     \<Rightarrow> (error \<times> holding list connection) + holding list connection" where
  "clean_cusips_body norm db_ok loaded conn =
     (case at_connection conn (load_ftd_cusips norm loaded) of
        Inl x \<Rightarrow> Inl x
      | Inr ftd_cusips \<Rightarrow>
     (case at_connection conn (read_database db_ok norm conn) of
        Inl x \<Rightarrow> Inl x
      | Inr df \<Rightarrow>
     (let cusips_in_titleofclass = filter (\<lambda>r. titleofclass r \<in> ftd_cusips) df;
          cusips_in_nameofissuer = filter (\<lambda>r. nameofissuer r \<in> ftd_cusips) df
      in
     (case at_connection conn
             (cur_execute db_ok FixTitleOfClass
                (update_titleofclass (map titleofclass cusips_in_titleofclass)) conn) of
        Inl x \<Rightarrow> Inl x
      | Inr conn1 \<Rightarrow>
     (case at_connection conn1
             (cur_execute db_ok FixNameOfIssuer
                (update_nameofissuer (map nameofissuer cusips_in_nameofissuer)) conn1) of
        Inl x \<Rightarrow> Inl x
      | Inr conn2 \<Rightarrow>
     (case at_connection conn2 (short_cusips ftd_cusips df) of
        Inl x \<Rightarrow> Inl x
      | Inr df_cusips \<Rightarrow>
     (case at_connection conn2 (cusip_fixes ftd_cusips df_cusips) of
        Inl x \<Rightarrow> Inl x
      | Inr fixes \<Rightarrow>
     (case at_connection conn2
             (cur_execute db_ok FixShortCusips (update_short_cusips fixes) conn2) of
        Inl x \<Rightarrow> Inl x
      | Inr conn3 \<Rightarrow>
          (if db_ok CommitTransaction then Inr (commit conn3)
           else Inl (DatabaseError, conn3))))))))))"

text \<open>
  \<open>clean_cusips\<close> with its handler \<open>except Exception as e: conn.rollback();
  logger.error(...); raise\<close>: the connection the exception came with is rolled back and
  the exception leaves the function.
\<close>

definition clean_cusips ::
  "(string \<Rightarrow> string) \<Rightarrow> (statement \<Rightarrow> bool) \<Rightarrow> error + csv_column
     \<Rightarrow> holding list connection
     \<Rightarrow> (error \<times> holding list connection) + holding list connection" where
  "clean_cusips norm db_ok loaded conn =
     (case clean_cusips_body norm db_ok loaded conn of
        Inl (e, conn') \<Rightarrow> Inl (e, rollback conn')
      | Inr conn' \<Rightarrow> Inr conn')"

text \<open>Step 7 of \<open>post_process_data\<close>: the call, inside the function's own
  \<open>try ... except Exception as e: logger.error(...); conn.rollback()\<close>, which does not
  raise again; the result is the connection that \<open>finally\<close> closes.\<close>

definition post_process_clean_cusips ::
  "(string \<Rightarrow> string) \<Rightarrow> (statement \<Rightarrow> bool) \<Rightarrow> error + csv_column
     \<Rightarrow> holding list connection \<Rightarrow> holding list connection" where
  "post_process_clean_cusips norm db_ok loaded conn =
     (case clean_cusips norm db_ok loaded conn of
        Inl (e, conn') \<Rightarrow> rollback conn'
      | Inr conn' \<Rightarrow> conn')"

text \<open>The normaliser on ASCII text: surrounding white space is stripped and the letters
  a to z are capitalised.\<close>

definition is_space :: "char \<Rightarrow> bool" where
  "is_space c \<longleftrightarrow> (9 \<le> py_ord c \<and> py_ord c \<le> 13) \<or> py_ord c = 32"

definition strip_chars :: "string \<Rightarrow> string" where
  "strip_chars s = rev (dropWhile is_space (rev (dropWhile is_space s)))"

definition ascii_upper :: "char \<Rightarrow> char" where
  "ascii_upper c = (if 97 \<le> py_ord c \<and> py_ord c \<le> 122 then char_of (py_ord c - 32) else c)"

definition normalise_ascii :: "string \<Rightarrow> string" where
  "normalise_ascii s = map ascii_upper (strip_chars s)"

section \<open>The progress store (class \<open>ProgressTracker\<close>)\<close>

text \<open>
  The two categories the methods are documented for. \<open>year\<close> and \<open>quarter\<close> are
  annotated \<open>int\<close>, and the aggregator also passes the strings it read from a
  directory name, so an argument is an integer or a string; \<open>format_value\<close> is what an
  f-string prints for it.
\<close>

datatype category = StructuredData | IndividualFilings

datatype pyval = PyInt int | PyStr string

definition format_value :: "pyval \<Rightarrow> string" where
  "format_value x = (case x of PyInt i \<Rightarrow> py_str i | PyStr s \<Rightarrow> s)"

record bucket =
  processed :: "string list"
  failed :: "string list"

record progress =
  structured_data :: bucket
  individual_filings :: "string \<rightharpoonup> bucket"
  last_updated :: string

text \<open>A tracker is the dictionary in memory and the JSON file on disk (\<open>None\<close> while
  the file does not exist). \<open>json.load\<close> returns the dictionary that \<open>json.dump\<close>
  wrote (its keys and items are strings), so the file is the dictionary it holds. Every
  method that reads the clock takes the time stamp as the argument \<open>now\<close>.\<close>

record tracker =
  data :: progress
  progress_file :: "progress option"

definition load_progress :: "progress option \<Rightarrow> string \<Rightarrow> progress" where
  "load_progress file now =
     (case file of
        Some d \<Rightarrow> d
      | None \<Rightarrow> \<lparr>structured_data = \<lparr>processed = [], failed = []\<rparr>,
                 individual_filings = Map.empty, last_updated = now\<rparr>)"

definition new_tracker :: "progress option \<Rightarrow> string \<Rightarrow> tracker" where
  "new_tracker file now = \<lparr>data = load_progress file now, progress_file = file\<rparr>"

definition save_progress :: "string \<Rightarrow> tracker \<Rightarrow> tracker" where
  "save_progress now t =
     (let d = (data t)\<lparr>last_updated := now\<rparr>
      in t\<lparr>data := d, progress_file := Some d\<rparr>)"

text \<open>\<open>if item not in xs: xs.append(item)\<close>.\<close>

definition append_new :: "string \<Rightarrow> string list \<Rightarrow> string list" where
  "append_new item xs = (if item \<in> set xs then xs else xs @ [item])"

text \<open>\<open>if key not in self.data[category]: self.data[category][key] = {"processed": [],
  "failed": []}\<close>, then the bucket under the key.\<close>

definition bucket_at :: "(string \<rightharpoonup> bucket) \<Rightarrow> string \<Rightarrow> bucket" where
  "bucket_at m key = (case m key of None \<Rightarrow> \<lparr>processed = [], failed = []\<rparr> | Some b \<Rightarrow> b)"

definition mark_processed ::
  "category \<Rightarrow> pyval \<Rightarrow> pyval \<Rightarrow> string \<Rightarrow> string \<Rightarrow> tracker \<Rightarrow> tracker" where
  "mark_processed cat year quarter item now t =
     (let d = data t;
          d' = (case cat of
                  StructuredData \<Rightarrow>
                    d\<lparr>structured_data := (structured_data d)
                        \<lparr>processed := append_new item (processed (structured_data d))\<rparr>\<rparr>
                | IndividualFilings \<Rightarrow>
                    (let key = format_value year @ ''_'' @ format_value quarter;
                         b = bucket_at (individual_filings d) key
                     in d\<lparr>individual_filings := (individual_filings d)
                           (key \<mapsto> b\<lparr>processed := append_new item (processed b)\<rparr>)\<rparr>))
      in save_progress now (t\<lparr>data := d'\<rparr>))"

definition mark_failed ::
  "category \<Rightarrow> pyval \<Rightarrow> pyval \<Rightarrow> string \<Rightarrow> string \<Rightarrow> tracker \<Rightarrow> tracker" where
  "mark_failed cat year quarter item now t =
     (let d = data t;
          d' = (case cat of
                  StructuredData \<Rightarrow>
                    d\<lparr>structured_data := (structured_data d)
                        \<lparr>failed := append_new item (failed (structured_data d))\<rparr>\<rparr>
                | IndividualFilings \<Rightarrow>
                    (let key = format_value year @ ''_'' @ format_value quarter;
                         b = bucket_at (individual_filings d) key
                     in d\<lparr>individual_filings := (individual_filings d)
                           (key \<mapsto> b\<lparr>failed := append_new item (failed b)\<rparr>)\<rparr>))
      in save_progress now (t\<lparr>data := d'\<rparr>))"

definition is_processed :: "category \<Rightarrow> pyval \<Rightarrow> pyval \<Rightarrow> string \<Rightarrow> tracker \<Rightarrow> bool" where
  "is_processed cat year quarter item t =
     (case cat of
        StructuredData \<Rightarrow> item \<in> set (processed (structured_data (data t)))
      | IndividualFilings \<Rightarrow>
          (let key = format_value year @ ''_Q'' @ format_value quarter
           in case individual_filings (data t) key of
                None \<Rightarrow> False
              | Some b \<Rightarrow> item \<in> set (processed b)))"

definition get_processed_count :: "category \<Rightarrow> pyval \<Rightarrow> pyval \<Rightarrow> tracker \<Rightarrow> nat" where
  "get_processed_count cat year quarter t =
     (case cat of
        StructuredData \<Rightarrow> length (processed (structured_data (data t)))
      | IndividualFilings \<Rightarrow>
          (let key = format_value year @ ''_Q'' @ format_value quarter
           in case individual_filings (data t) key of
                None \<Rightarrow> 0
              | Some b \<Rightarrow> length (processed b)))"

text \<open>A sequence of calls on the store, each with the time at which it runs.\<close>

datatype call =
  MarkProcessed category pyval pyval string string
| MarkFailed category pyval pyval string string

fun apply_call :: "call \<Rightarrow> tracker \<Rightarrow> tracker" where
  "apply_call (MarkProcessed cat year quarter item now) t = mark_processed cat year quarter item now t"
| "apply_call (MarkFailed cat year quarter item now) t = mark_failed cat year quarter item now t"

fun run_calls :: "call list \<Rightarrow> tracker \<Rightarrow> tracker" where
  "run_calls [] t = t"
| "run_calls (c # cs) t = run_calls cs (apply_call c t)"

text \<open>The processed items of a store: the flat list of the structured category and the
  list under every year-quarter key.\<close>

definition processed_items :: "progress \<Rightarrow> string list \<times> (string \<rightharpoonup> string list)" where
  "processed_items d =
     (processed (structured_data d), \<lambda>key. map_option processed (individual_filings d key))"

section \<open>The per-document ingestion worker (\<open>process_individual_filing\<close>)\<close>

text \<open>
  The two tables: a filing row is its surrogate id, its accession number and its other
  columns; a holding row is the id of its filing and its twelve columns.
\<close>

record ('f, 'h) database =
  filings :: "(nat \<times> string \<times> 'f) list"
  holdings :: "(nat \<times> 'h) list"

datatype worker_statement = InsertFiling | InsertHoldings

text \<open>\<open>INSERT INTO filings ... ON CONFLICT (accession_number) DO NOTHING RETURNING id\<close>
  followed by \<open>cur.fetchone()\<close>; \<open>new_id\<close> is the id the database generates.\<close>

definition insert_filing ::
  "nat \<Rightarrow> string \<Rightarrow> 'f \<Rightarrow> ('f, 'h) database \<Rightarrow> nat option \<times> ('f, 'h) database" where
  "insert_filing new_id accession_number columns db =
     (if accession_number \<in> set (map (\<lambda>(i, a, f). a) (filings db)) then (None, db)
      else (Some new_id, db\<lparr>filings := filings db @ [(new_id, accession_number, columns)]\<rparr>))"

definition insert_holdings :: "(nat \<times> 'h) list \<Rightarrow> ('f, 'h) database \<Rightarrow> ('f, 'h) database" where
  "insert_holdings rows db = db\<lparr>holdings := holdings db @ rows\<rparr>"

text \<open>\<open>s.split(sep)\<close> for a one-character separator.\<close>

fun split_on :: "char \<Rightarrow> string \<Rightarrow> string list" where
  "split_on sep [] = [[]]"
| "split_on sep (c # cs) =
     (if c = sep then [] # split_on sep cs
      else case split_on sep cs of
             w # ws \<Rightarrow> (c # w) # ws
           | [] \<Rightarrow> [[c]])"

type_synonym event = "category \<times> string \<times> pyval \<times> pyval \<times> string"

text \<open>
  The inner \<open>try\<close> block. The result is the connection when the block ends or raises,
  the events put on the queue, and the exception raised, if any. \<open>dir_name\<close> is
  \<open>os.path.basename(os.path.dirname(file_path))\<close>.
\<close>

definition progress_event :: "string \<Rightarrow> string \<Rightarrow> string \<Rightarrow> error + event" where
  "progress_event dir_name file_path filename =
     (case split_on CHR ''_'' dir_name of
        [year, quarter] \<Rightarrow> Inr (IndividualFilings, file_path, PyStr year, PyStr quarter, filename)
      | _ \<Rightarrow> Inl ValueError)"

definition worker_body ::
  "(worker_statement \<Rightarrow> bool) \<Rightarrow> nat \<Rightarrow> string \<times> 'f \<Rightarrow> 'h list \<Rightarrow> string \<Rightarrow> string \<Rightarrow> string
     \<Rightarrow> ('f, 'h) database connection
     \<Rightarrow> ('f, 'h) database connection \<times> event list \<times> error option" where
  "worker_body db_ok new_id filing_data holdings_data dir_name file_path filename conn =
     (if \<not> db_ok InsertFiling then (conn, [], Some DatabaseError)
      else
        (let inserted = insert_filing new_id (fst filing_data) (snd filing_data) (working conn);
             filing_id = fst inserted;
             conn1 = conn\<lparr>working := snd inserted\<rparr>;
             after_holdings =
               (case filing_id of
                  None \<Rightarrow> Inr conn1
                | Some fid \<Rightarrow>
                    cur_execute db_ok InsertHoldings
                      (insert_holdings (map (\<lambda>holding. (fid, holding)) holdings_data)) conn1)
         in case after_holdings of
              Inl e \<Rightarrow> (conn1, [], Some e)
            | Inr conn2 \<Rightarrow>
                (case progress_event dir_name file_path filename of
                   Inl e \<Rightarrow> (commit conn2, [], Some e)
                 | Inr ev \<Rightarrow> (commit conn2, [ev], None))))"

text \<open>
  The whole function on the database \<open>db\<close>: \<open>parsed\<close> is what \<open>parse_xml_filing\<close>
  did (raise, or return the filing data, \<open>None\<close> for a failed parse, and the holdings),
  \<open>connect_ok\<close> whether \<open>psycopg2.connect\<close> succeeded. The result is the database
  after the connection is closed and the events put on the queue.
\<close>

definition process_individual_filing ::
  "error + ((string \<times> 'f) option \<times> 'h list) \<Rightarrow> bool \<Rightarrow> (worker_statement \<Rightarrow> bool) \<Rightarrow> nat
     \<Rightarrow> string \<Rightarrow> string \<Rightarrow> string \<Rightarrow> ('f, 'h) database
     \<Rightarrow> ('f, 'h) database \<times> event list" where
  "process_individual_filing parsed connect_ok db_ok new_id dir_name file_path filename db =
     (case parsed of
        Inl e \<Rightarrow> (db, [])
      | Inr (None, holdings_data) \<Rightarrow> (db, [])
      | Inr (Some filing_data, holdings_data) \<Rightarrow>
          (if \<not> connect_ok then (db, [])
           else
             (let conn = \<lparr>committed = db, working = db\<rparr>;
                  result =
                    worker_body db_ok new_id filing_data holdings_data dir_name file_path
                      filename conn;
                  conn' = fst result;
                  events = fst (snd result);
                  closed = (case snd (snd result) of None \<Rightarrow> conn' | Some e \<Rightarrow> rollback conn')
              in (committed closed, events))))"

section \<open>Notions used to state the properties\<close>

text \<open>What the column-swap stage leaves of one row, by the columns of the row that hold a
  code of the reference set \<open>ftd\<close>.\<close>

definition swapped_row :: "string set \<Rightarrow> holding \<Rightarrow> holding" where
  "swapped_row ftd r =
     (if nameofissuer r \<in> ftd then
        (if titleofclass r \<in> ftd
         then \<lparr>cusip = nameofissuer r, titleofclass = titleofclass r, nameofissuer = cusip r\<rparr>
         else \<lparr>cusip = nameofissuer r, titleofclass = cusip r, nameofissuer = titleofclass r\<rparr>)
      else if titleofclass r \<in> ftd
           then \<lparr>cusip = titleofclass r, titleofclass = cusip r, nameofissuer = nameofissuer r\<rparr>
           else r)"

text \<open>The processed list under a key, empty when the key is absent.\<close>

definition processed_at :: "tracker \<Rightarrow> string \<Rightarrow> string list" where
  "processed_at t key = processed (bucket_at (individual_filings (data t)) key)"

text \<open>The accession numbers of the filings in a database.\<close>

definition accession_numbers :: "('f, 'h) database \<Rightarrow> string set" where
  "accession_numbers db = set (map (\<lambda>(i, a, f). a) (filings db))"

subsection \<open>The check digit as the specification words it\<close>

text \<open>
  The specification's checksum: a digit counts as its numeric value, a letter as 10 plus
  its position in the alphabet (A = 0); the value at every odd index is doubled; the
  decimal digits of every value are summed, and the check digit is
  \<open>(10 - (total mod 10)) mod 10\<close>. \<open>cusip_char\<close> is the alphabet of identifier
  codes: the ten digits and the twenty-six capital letters.
\<close>

definition cusip_char :: "char \<Rightarrow> bool" where
  "cusip_char c \<longleftrightarrow> py_isdecimal c \<or> (65 \<le> py_ord c \<and> py_ord c \<le> 90)"

definition spec_char_value :: "char \<Rightarrow> nat" where
  "spec_char_value c =
     (if py_isdecimal c then nat (py_ord c - 48) else 10 + nat (py_ord c - 65))"

fun digit_sum :: "nat \<Rightarrow> nat" where
  "digit_sum n = (if n < 10 then n else digit_sum (n div 10) + n mod 10)"

definition spec_weighted :: "nat \<Rightarrow> nat \<Rightarrow> nat" where
  "spec_weighted i v = digit_sum (if odd i then 2 * v else v)"

definition spec_total :: "string \<Rightarrow> nat" where
  "spec_total s = (\<Sum>i<length s. spec_weighted i (spec_char_value (s ! i)))"

definition spec_check_digit :: "string \<Rightarrow> nat" where
  "spec_check_digit s = (10 - spec_total s mod 10) mod 10"


subsection \<open>Short-code repair as the specification words it\<close>

text \<open>
  Left and right padding with zero characters to 9; the 9-character completion of an
  8-character stem by its check digit; checksum-assisted repair: for a 7-character code,
  each of the 36 characters as a prefix, and when no prefix completion is in the
  reference set, each of them as a suffix; for an 8-character code, as claim C9 has it,
  its completion. The specification gives no order for the 36 characters: they are taken
  in the order of \<open>alphabet\<close>. The repair order, for one code: (a) the left-padded form if it is in the
  reference set, else (b) the right-padded form if it is, else (c) the result of
  checksum-assisted repair, else (d) the left-padded form.
\<close>

definition spec_left_pad :: "string \<Rightarrow> string" where
  "spec_left_pad c = replicate (9 - length c) CHR ''0'' @ c"

definition spec_right_pad :: "string \<Rightarrow> string" where
  "spec_right_pad c = c @ replicate (9 - length c) CHR ''0''"

definition spec_completion :: "string \<Rightarrow> string" where
  "spec_completion stem = stem @ [digit_char (spec_check_digit stem)]"

definition spec_checksum_repair :: "string set \<Rightarrow> string \<Rightarrow> string option" where
  "spec_checksum_repair ftd c =
     (if length c = 7 then
        (case find (\<lambda>ch. spec_completion (ch # c) \<in> ftd) alphabet of
           Some ch \<Rightarrow> Some (spec_completion (ch # c))
         | None \<Rightarrow>
             (case find (\<lambda>ch. spec_completion (c @ [ch]) \<in> ftd) alphabet of
                Some ch \<Rightarrow> Some (spec_completion (c @ [ch]))
              | None \<Rightarrow> None))
      else if length c = 8 then
        (if spec_completion c \<in> ftd then Some (spec_completion c) else None)
      else None)"

definition spec_repair_by_priority :: "string set \<Rightarrow> string \<Rightarrow> string" where
  "spec_repair_by_priority ftd c =
     (if spec_left_pad c \<in> ftd then spec_left_pad c
      else if spec_right_pad c \<in> ftd then spec_right_pad c
      else case spec_checksum_repair ftd c of Some f \<Rightarrow> f | None \<Rightarrow> spec_left_pad c)"

text \<open>
  The codes the statement about the repair order is made for: a code with no leading
  sign that, when it is 7 or 8 characters long, consists of digits and capital letters;
  and the codes set aside in it: a 7-character code that neither padding repairs, that no
  prefix completes and that one of the first 35 characters completes as a suffix.
\<close>

definition plain_code :: "string \<Rightarrow> bool" where
  "plain_code c \<longleftrightarrow>
     (c = [] \<or> (hd c \<noteq> CHR ''-'' \<and> hd c \<noteq> CHR ''+'')) \<and>
     (length c = 7 \<or> length c = 8 \<longrightarrow> list_all cusip_char c)"

definition suffix_completed_early :: "string set \<Rightarrow> string \<Rightarrow> bool" where
  "suffix_completed_early ftd c \<longleftrightarrow>
     spec_left_pad c \<notin> ftd \<and> spec_right_pad c \<notin> ftd \<and> length c = 7 \<and>
     find (\<lambda>ch. spec_completion (ch # c) \<in> ftd) alphabet = None \<and>
     list_ex (\<lambda>ch. spec_completion (c @ [ch]) \<in> ftd) (butlast alphabet)"


section \<open>Properties of the check digit\<close>

lemma char_value_cusip_char:
  "cusip_char c \<Longrightarrow> char_value c = Inr (int (spec_char_value c))"
  by (auto simp: cusip_char_def char_value_def spec_char_value_def py_isdigit_def
      py_isdecimal_def py_int_def py_ord_def)

lemma char_values_cusip:
  "list_all cusip_char s \<Longrightarrow> char_values s = Inr (map (\<lambda>c. int (spec_char_value c)) s)"
  by (induction s) (simp_all add: char_value_cusip_char)

lemma spec_char_value_le: "cusip_char c \<Longrightarrow> spec_char_value c \<le> 35"
  by (auto simp: cusip_char_def spec_char_value_def py_isdecimal_def)

lemma digit_sum_two_digits: "n < 100 \<Longrightarrow> digit_sum n = n div 10 + n mod 10"
proof -
  assume n: "n < 100"
  show ?thesis
  proof (cases "n < 10")
    case True
    then show ?thesis by simp
  next
    case False
    from n have "n div 10 < 10" by simp
    then have "digit_sum (n div 10) = n div 10" by simp
    with False show ?thesis by (subst digit_sum.simps) simp
  qed
qed

lemma weighted_step:
  assumes "v \<le> 35"
  shows "(let v' = (if i mod 2 = 1 then int v * 2 else int v) in v' div 10 + v' mod 10)
         = int (spec_weighted i v)"
proof -
  have small: "2 * v < 100" "v < 100" using assms by simp_all
  have dbl: "int v * 2 = int (2 * v)" by simp
  show ?thesis
    unfolding Let_def dbl
    using small
    by (simp add: spec_weighted_def digit_sum_two_digits odd_iff_mod_2_eq_one
        zdiv_int zmod_int del: digit_sum.simps of_nat_mult)
qed

lemma check_total_spec:
  "list_all (\<lambda>v. v \<le> 35) ns \<Longrightarrow>
   check_total i (map int ns) t = t + int (\<Sum>k<length ns. spec_weighted (i + k) (ns ! k))"
proof (induction ns arbitrary: i t)
  case Nil
  then show ?case by simp
next
  case (Cons v ns)
  from Cons.prems have v: "v \<le> 35" and ns: "list_all (\<lambda>v. v \<le> 35) ns" by simp_all
  have "check_total i (map int (v # ns)) t
        = check_total (Suc i) (map int ns) (t + int (spec_weighted i v))"
    using weighted_step [OF v, of i] by (simp add: Let_def)
  also have "\<dots> = t + int (spec_weighted i v)
        + int (\<Sum>k<length ns. spec_weighted (Suc i + k) (ns ! k))"
    by (rule Cons.IH [OF ns])
  also have "(\<Sum>k<length (v # ns). spec_weighted (i + k) ((v # ns) ! k))
        = spec_weighted i v + (\<Sum>k<length ns. spec_weighted (Suc i + k) (ns ! k))"
    by (simp add: sum.lessThan_Suc_shift del: sum.lessThan_Suc)
  then have "t + int (spec_weighted i v)
        + int (\<Sum>k<length ns. spec_weighted (Suc i + k) (ns ! k))
        = t + int (\<Sum>k<length (v # ns). spec_weighted (i + k) ((v # ns) ! k))"
    by simp
  finally show ?case .
qed

lemma py_str_digit: "0 \<le> d \<Longrightarrow> d < 10 \<Longrightarrow> py_str d = [digit_char (nat d)]"
  by (simp add: py_str_def)

lemma cusip_char_isalnum: "cusip_char c \<Longrightarrow> py_isalnum c"
  by (auto simp: cusip_char_def py_isalnum_def py_isalpha_def)

lemma compute_check_digit_cusip:
  assumes len: "length s = 8" and chars: "list_all cusip_char s"
  shows "compute_check_digit s = Inr [digit_char (spec_check_digit s)]"
proof -
  have alnum: "str_isalnum s"
    using len chars by (auto simp: str_isalnum_def list_all_iff cusip_char_isalnum)
  have small: "list_all (\<lambda>v. v \<le> 35) (map spec_char_value s)"
    using chars by (auto simp: list_all_iff spec_char_value_le)
  have vals: "char_values s = Inr (map int (map spec_char_value s))"
    using char_values_cusip [OF chars] by (simp add: comp_def)
  have tot: "check_total 0 (map int (map spec_char_value s)) 0 = int (spec_total s)"
    using check_total_spec [OF small, of 0 0] by (simp add: spec_total_def)
  have digit: "(10 - int (spec_total s) mod 10) mod 10 = int (spec_check_digit s)"
    unfolding spec_check_digit_def
    by (simp add: zmod_int of_nat_diff)
  show ?thesis
    unfolding compute_check_digit_def
    using len alnum vals tot digit
    by (simp add: Let_def py_str_digit del: check_total.simps char_values.simps)
qed

text \<open>
  Claim C1. On every 8-character stem of digits and capital letters,
  \<open>compute_check_digit\<close> returns the one-character string of the specification's
  check digit: each character is mapped to its value (digits to their numeric value,
  letters to 10 plus the alphabet position), the value at every odd 0-based index is
  doubled, the decimal digits are summed, and the result is
  \<open>(10 - (total mod 10)) mod 10\<close>. On the stem 03783310 it returns "0".
\<close>

theorem compute_check_digit_spec:
  "(length s = 8 \<and> list_all cusip_char s \<longrightarrow>
      compute_check_digit s = Inr [digit_char (spec_check_digit s)]) \<and>
   compute_check_digit ''03783310'' = Inr ''0''"
proof -
  have "compute_check_digit ''03783310'' = Inr ''0''"
    by code_simp
  then show ?thesis
    using compute_check_digit_cusip by blast
qed

theorem compute_check_digit_spec_witness:
  "length ''38259P50'' = 8 \<and> list_all cusip_char ''38259P50'' \<and>
   compute_check_digit ''38259P50'' = Inr [digit_char (spec_check_digit ''38259P50'')] \<and>
   spec_check_digit ''38259P50'' = 8"
proof -
  have len: "length ''38259P50'' = 8" by simp
  have chars: "list_all cusip_char ''38259P50''"
    by code_simp
  have digit: "spec_check_digit ''38259P50'' = 8"
    by code_simp
  show ?thesis
    using len chars digit compute_check_digit_spec [of "''38259P50''"] by blast
qed

section \<open>Properties of the repair functions\<close>

lemma char_value_Inl:
  "char_value c = Inl e \<longleftrightarrow> py_isdigit c \<and> \<not> py_isdecimal c \<and> e = ValueError"
  by (auto simp: char_value_def py_int_def)

lemma char_values_Inl:
  "char_values s = Inl e \<longleftrightarrow>
     \<not> list_all (\<lambda>c. py_isdigit c \<longrightarrow> py_isdecimal c) s \<and> e = ValueError"
proof (induction s)
  case Nil
  then show ?case by simp
next
  case (Cons c s)
  show ?case
  proof (cases "char_value c")
    case (Inl e')
    then show ?thesis using char_value_Inl [of c e'] by auto
  next
    case (Inr v)
    then have ok: "py_isdigit c \<longrightarrow> py_isdecimal c"
      using char_value_Inl [of c ValueError] by auto
    show ?thesis
      using Inr ok Cons.IH by (auto split: sum.splits)
  qed
qed

lemma compute_check_digit_Inl:
  "compute_check_digit s = Inl e \<longleftrightarrow>
     (length s \<noteq> 8 \<or> \<not> list_all py_isalnum s \<or>
      \<not> list_all (\<lambda>c. py_isdigit c \<longrightarrow> py_isdecimal c) s) \<and> e = ValueError"
proof (cases "length s \<noteq> 8 \<or> \<not> str_isalnum s")
  case True
  then show ?thesis
    by (auto simp: compute_check_digit_def str_isalnum_def)
next
  case False
  then have len: "length s = 8" and alnum: "list_all py_isalnum s"
    by (auto simp: str_isalnum_def)
  show ?thesis
  proof (cases "char_values s")
    case (Inl e')
    then show ?thesis
      using False char_values_Inl [of s e'] by (auto simp: compute_check_digit_def)
  next
    case (Inr vals)
    then have "list_all (\<lambda>c. py_isdigit c \<longrightarrow> py_isdecimal c) s"
      using char_values_Inl [of s ValueError] by auto
    then show ?thesis
      using False Inr len alnum by (auto simp: compute_check_digit_def Let_def)
  qed
qed

lemma compute_check_digit_Inr:
  assumes "compute_check_digit s = Inr r"
  shows "\<exists>d<10. r = [digit_char d]"
proof -
  from assms obtain vals where
    r: "r = py_str ((10 - check_total 0 vals 0 mod 10) mod 10)"
    by (auto simp: compute_check_digit_def Let_def split: if_splits sum.splits)
  define k where "k = (10 - check_total 0 vals 0 mod 10) mod 10"
  have k: "0 \<le> k" "k < 10" by (simp_all add: k_def)
  then have "py_str k = [digit_char (nat k)]" "nat k < 10"
    by (simp_all add: py_str_def)
  then show ?thesis using r k_def by auto
qed

lemma alphabet_Cons: "alphabet = CHR ''A'' # ''BCDEFGHIJKLMNOPQRSTUVWXYZ0123456789''"
  by (simp add: alphabet_def)

lemma find_valid_cusips_7_raises:
  assumes "length s = 7" "\<not> list_all py_isalnum s"
  shows "find_valid_cusips s ftd = Inl ValueError"
proof -
  have "compute_check_digit (CHR ''A'' # s) = Inl ValueError"
    using assms by (simp add: compute_check_digit_Inl)
  then have "try_left_padding alphabet s ftd = Inl ValueError"
    by (simp add: alphabet_Cons)
  then show ?thesis using assms(1) by (simp add: find_valid_cusips_def)
qed

lemma ascii_digit_decimal: "py_ord c < 128 \<Longrightarrow> py_isdigit c \<Longrightarrow> py_isdecimal c"
  by (auto simp: py_isdigit_def)

lemma map_elements_InrD:
  "map_elements f xs = Inr ys \<Longrightarrow> map f xs = map Inr ys"
  by (induction xs arbitrary: ys) (auto split: sum.splits)

lemma map_elements_Inl:
  "map_elements f xs = Inl e \<Longrightarrow> \<exists>x\<in>set xs. f x = Inl e"
  by (induction xs) (auto split: sum.splits)

lemma dict_update_map_of: "dict_update kvs m = m ++ map_of (rev kvs)"
proof (induction kvs m rule: dict_update.induct)
  case (1 m)
  then show ?case by simp
next
  case (2 k v kvs m)
  show ?case
    by (rule ext) (simp add: "2.IH" map_add_def split: option.splits)
qed

lemma py_dict_map_of: "py_dict kvs = map_of (rev kvs)"
  by (simp add: py_dict_def dict_update_map_of)

lemma map_of_graph:
  assumes "\<And>k v. (k, v) \<in> set kvs \<Longrightarrow> v = g k"
  shows "map_of kvs c = (if c \<in> fst ` set kvs then Some (g c) else None)"
proof (cases "map_of kvs c")
  case None
  then show ?thesis by (simp add: map_of_eq_None_iff)
next
  case (Some v)
  then have "(c, v) \<in> set kvs" by (rule map_of_SomeD)
  then show ?thesis using Some assms by force
qed

lemma filter_tagged:
  "filter (\<lambda>(c, f). P f) (map (\<lambda>c. (c, h c)) cs) = map (\<lambda>c. (c, h c)) (filter (\<lambda>c. P (h c)) cs)"
  by (induction cs) auto

lemma fst_tagged: "map fst (map (\<lambda>c. (c, h c)) cs) = cs"
  by (induction cs) auto

lemma short_code_fixes_unfold:
  "short_code_fixes ftd cs =
     (case map_elements (\<lambda>x. find_valid_cusips x ftd) (filter (reaches_checksum ftd) cs) of
        Inl e \<Rightarrow> Inl e
      | Inr fixed \<Rightarrow>
          Inr (map (\<lambda>c. (c, zfill 9 c)) (filter (\<lambda>c. zfill 9 c \<in> ftd) cs) @
               map (\<lambda>c. (c, pad_end 9 CHR ''0'' c))
                 (filter (\<lambda>c. pad_end 9 CHR ''0'' c \<in> ftd) (filter (\<lambda>c. zfill 9 c \<notin> ftd) cs)) @
               map (\<lambda>(c, f). (c, the f))
                 (filter (\<lambda>(c, f). f \<noteq> None) (zip (filter (reaches_checksum ftd) cs) fixed)) @
               map (\<lambda>c. (c, zfill 9 c))
                 (map fst (filter (\<lambda>(c, f). f = None)
                    (zip (filter (reaches_checksum ftd) cs) fixed)))))"
proof -
  have rc: "reaches_checksum ftd = (\<lambda>c. zfill 9 c \<notin> ftd \<and> pad_end 9 CHR ''0'' c \<notin> ftd)"
    by (simp add: reaches_checksum_def fun_eq_iff)
  show ?thesis
    unfolding short_code_fixes_def Let_def filter_tagged fst_tagged rc
    by (simp split: sum.splits)
qed

lemma zip_map_elements:
  assumes "map_elements f xs = Inr ys"
  shows "length ys = length xs" and "(x, y) \<in> set (zip xs ys) \<Longrightarrow> f x = Inr y"
    and "x \<in> set xs \<Longrightarrow> \<exists>y. (x, y) \<in> set (zip xs ys)"
proof -
  from assms have mapped: "map f xs = map Inr ys" by (rule map_elements_InrD)
  then show len: "length ys = length xs" by (metis length_map)
  show "f x = Inr y" if "(x, y) \<in> set (zip xs ys)"
  proof -
    from that obtain i where i: "i < length xs" "xs ! i = x" "ys ! i = y"
      using len by (auto simp: set_zip)
    have "map f xs ! i = map Inr ys ! i" using mapped by simp
    then show ?thesis using i len by simp
  qed
  show "\<exists>y. (x, y) \<in> set (zip xs ys)" if "x \<in> set xs"
  proof -
    have "fst ` set (zip xs ys) = set xs" using len by (metis map_fst_zip set_map)
    then show ?thesis using that by force
  qed
qed

lemma set_checksum_matched:
  "set (map (\<lambda>(c, f). (c, the f)) (filter (\<lambda>(c, f). f \<noteq> None) zs))
     = {(c, f) |c f. (c, Some f) \<in> set zs}"
  by (induction zs) auto

lemma set_lpad_remaining:
  "set (map (\<lambda>c. (c, h c)) (map fst (filter (\<lambda>(c, f). f = None) zs)))
     = {(c, h c) |c. (c, None) \<in> set zs}"
  by (induction zs) auto

lemma short_code_fixes_Inr:
  assumes "short_code_fixes ftd cs = Inr all_fixes"
  shows "fst ` set all_fixes = set cs"
    and "(k, v) \<in> set all_fixes \<Longrightarrow> v = chosen_fix ftd k"
    and "c \<in> set cs \<Longrightarrow> reaches_checksum ftd c \<Longrightarrow> \<exists>r. find_valid_cusips c ftd = Inr r"
proof -
  define rem2 where "rem2 = filter (reaches_checksum ftd) cs"
  define L where "L = map (\<lambda>c. (c, zfill 9 c)) (filter (\<lambda>c. zfill 9 c \<in> ftd) cs)"
  define R where "R = map (\<lambda>c. (c, pad_end 9 CHR ''0'' c))
      (filter (\<lambda>c. pad_end 9 CHR ''0'' c \<in> ftd) (filter (\<lambda>c. zfill 9 c \<notin> ftd) cs))"
  from assms obtain fixed where
    fixed: "map_elements (\<lambda>x. find_valid_cusips x ftd) rem2 = Inr fixed"
    and all: "all_fixes = L @ R @
       map (\<lambda>(c, f). (c, the f)) (filter (\<lambda>(c, f). f \<noteq> None) (zip rem2 fixed)) @
       map (\<lambda>c. (c, zfill 9 c)) (map fst (filter (\<lambda>(c, f). f = None) (zip rem2 fixed)))"
    unfolding short_code_fixes_unfold rem2_def L_def R_def
    by (auto split: sum.splits)
  note z = zip_map_elements [OF fixed]
  have mem: "(k, v) \<in> set all_fixes \<longleftrightarrow>
      (k, v) \<in> set L \<or> (k, v) \<in> set R \<or> (k, Some v) \<in> set (zip rem2 fixed) \<or>
      ((k, None) \<in> set (zip rem2 fixed) \<and> v = zfill 9 k)" for k v
    unfolding all set_append set_checksum_matched set_lpad_remaining
    by auto
  have inL: "(k, v) \<in> set L \<longleftrightarrow> k \<in> set cs \<and> zfill 9 k \<in> ftd \<and> v = zfill 9 k" for k v
    by (auto simp: L_def)
  have inR: "(k, v) \<in> set R \<longleftrightarrow>
      k \<in> set cs \<and> zfill 9 k \<notin> ftd \<and> pad_end 9 CHR ''0'' k \<in> ftd \<and> v = pad_end 9 CHR ''0'' k" for k v
    by (auto simp: R_def)
  have in_rem2: "k \<in> set rem2 \<longleftrightarrow> k \<in> set cs \<and> reaches_checksum ftd k" for k
    by (simp add: rem2_def)
  have zipD: "k \<in> set rem2 \<and> find_valid_cusips k ftd = Inr y"
    if "(k, y) \<in> set (zip rem2 fixed)" for k y
  proof
    show "k \<in> set rem2" using that by (rule set_zip_leftD)
    show "find_valid_cusips k ftd = Inr y" using that by (rule z(2))
  qed
  show "fst ` set all_fixes = set cs"
  proof (intro set_eqI iffI)
    fix c assume "c \<in> fst ` set all_fixes"
    then obtain v where "(c, v) \<in> set all_fixes" by auto
    then have "(c, v) \<in> set L \<or> (c, v) \<in> set R \<or> (c, Some v) \<in> set (zip rem2 fixed) \<or>
      (c, None) \<in> set (zip rem2 fixed)"
      by (auto simp: mem)
    then have "c \<in> set cs \<or> c \<in> set rem2"
      using zipD [of c "Some v"] zipD [of c None] by (auto simp: inL inR)
    then show "c \<in> set cs" by (auto simp: in_rem2)
  next
    fix c assume c: "c \<in> set cs"
    have "\<exists>v. (c, v) \<in> set all_fixes"
    proof (cases "reaches_checksum ftd c")
      case False
      then have "(c, zfill 9 c) \<in> set L \<or> (c, pad_end 9 CHR ''0'' c) \<in> set R"
        using c by (auto simp: inL inR reaches_checksum_def)
      then show ?thesis using mem by blast
    next
      case True
      then have "c \<in> set rem2" using c in_rem2 by simp
      then obtain y where y: "(c, y) \<in> set (zip rem2 fixed)" using z(3) by blast
      show ?thesis
      proof (cases y)
        case None
        then have "(c, zfill 9 c) \<in> set all_fixes" using y by (simp add: mem)
        then show ?thesis ..
      next
        case (Some f)
        then have "(c, f) \<in> set all_fixes" using y by (simp add: mem)
        then show ?thesis ..
      qed
    qed
    then show "c \<in> fst ` set all_fixes" by force
  qed
  show "v = chosen_fix ftd k" if "(k, v) \<in> set all_fixes"
  proof -
    from that consider
      (left) "(k, v) \<in> set L"
      | (right) "(k, v) \<in> set R"
      | (checksum) "(k, Some v) \<in> set (zip rem2 fixed)"
      | (lpad) "(k, None) \<in> set (zip rem2 fixed)" "v = zfill 9 k"
      using mem [of k v] by blast
    then show ?thesis
    proof cases
      case left
      then show ?thesis by (simp add: inL chosen_fix_def)
    next
      case right
      then show ?thesis by (simp add: inR chosen_fix_def)
    next
      case checksum
      then have "reaches_checksum ftd k" "find_valid_cusips k ftd = Inr (Some v)"
        using zipD [of k "Some v"] by (simp_all add: in_rem2)
      then show ?thesis by (simp add: chosen_fix_def reaches_checksum_def)
    next
      case lpad
      then have "reaches_checksum ftd k" "find_valid_cusips k ftd = Inr None"
        using zipD [of k None] by (simp_all add: in_rem2)
      then show ?thesis using lpad by (simp add: chosen_fix_def reaches_checksum_def)
    qed
  qed
  show "\<exists>r. find_valid_cusips c ftd = Inr r" if "c \<in> set cs" "reaches_checksum ftd c"
  proof -
    from that have "c \<in> set rem2" using in_rem2 by simp
    then obtain y where "(c, y) \<in> set (zip rem2 fixed)" using z(3) by blast
    then show ?thesis using zipD by blast
  qed
qed

lemma short_code_fixes_Inl:
  "short_code_fixes ftd cs = Inl e \<longleftrightarrow>
     map_elements (\<lambda>x. find_valid_cusips x ftd) (filter (reaches_checksum ftd) cs) = Inl e"
  unfolding short_code_fixes_unfold by (auto split: sum.splits)

lemma cusip_fixes_lookup:
  assumes "cusip_fixes ftd cs = Inr fx"
  shows "fx c = (if c \<in> set cs then Some (chosen_fix ftd c) else None)"
proof -
  from assms obtain all_fixes where
    all: "short_code_fixes ftd cs = Inr all_fixes" and fx: "fx = py_dict all_fixes"
    by (auto simp: cusip_fixes_def split: sum.splits)
  have "map_of (rev all_fixes) c
          = (if c \<in> fst ` set (rev all_fixes) then Some (chosen_fix ftd c) else None)"
    by (rule map_of_graph) (use short_code_fixes_Inr(2) [OF all] in auto)
  then show ?thesis
    using short_code_fixes_Inr(1) [OF all] by (simp add: fx py_dict_map_of)
qed


lemma try_left_padding_Inl:
  "try_left_padding chs c ftd = Inl e \<Longrightarrow> e = ValueError"
  by (induction chs) (auto simp: Let_def compute_check_digit_Inl split: sum.splits if_splits)

lemma find_valid_cusips_Inl:
  "find_valid_cusips c ftd = Inl e \<Longrightarrow> e = ValueError"
  by (auto simp: find_valid_cusips_def Let_def compute_check_digit_Inl
      dest: try_left_padding_Inl split: sum.splits if_splits option.splits)

lemma map_elements_total:
  "(\<exists>ys. map_elements f xs = Inr ys) \<longleftrightarrow> (\<forall>x\<in>set xs. \<exists>y. f x = Inr y)"
  by (induction xs) (auto split: sum.splits)

lemma cusip_fixes_completes:
  "(\<exists>fx. cusip_fixes ftd cs = Inr fx) \<longleftrightarrow>
     (\<forall>c\<in>set cs. reaches_checksum ftd c \<longrightarrow> (\<exists>r. find_valid_cusips c ftd = Inr r))"
proof -
  have "(\<exists>fx. cusip_fixes ftd cs = Inr fx) \<longleftrightarrow>
      (\<exists>ys. map_elements (\<lambda>x. find_valid_cusips x ftd) (filter (reaches_checksum ftd) cs) = Inr ys)"
    unfolding cusip_fixes_def short_code_fixes_unfold
    by (auto split: sum.splits)
  then show ?thesis
    by (auto simp: map_elements_total)
qed

lemma cusip_fixes_Inl:
  "cusip_fixes ftd cs = Inl e \<Longrightarrow> e = ValueError"
proof -
  assume "cusip_fixes ftd cs = Inl e"
  then have "short_code_fixes ftd cs = Inl e"
    by (auto simp: cusip_fixes_def split: sum.splits)
  then have "\<exists>x\<in>set (filter (reaches_checksum ftd) cs). find_valid_cusips x ftd = Inl e"
    unfolding short_code_fixes_Inl by (rule map_elements_Inl)
  then show ?thesis using find_valid_cusips_Inl by blast
qed

lemma cusip_fixes_reaches:
  assumes "cusip_fixes ftd cs = Inr fx" "c \<in> set cs" "reaches_checksum ftd c"
  shows "\<exists>r. find_valid_cusips c ftd = Inr r"
  using assms cusip_fixes_completes [of ftd cs] by blast

lemma find_valid_cusips_8:
  "length c = 8 \<Longrightarrow> find_valid_cusips c ftd =
     (case compute_check_digit c of
        Inl e \<Rightarrow> Inl e
      | Inr d \<Rightarrow> Inr (if c @ d \<in> ftd then Some (c @ d) else None))"
  by (simp add: find_valid_cusips_def Let_def cong: sum.case_cong)

text \<open>
  Claim C10, amended. \<open>compute_check_digit\<close> raises \<open>ValueError\<close> if and only if
  its input is not exactly 8 characters long, or has a character that is not alphanumeric,
  or has a character that \<open>isdigit\<close> accepts and \<open>int\<close> rejects (a superscript digit);
  on ASCII input that is: if and only if the input is not 8 characters long or has a
  character that is not alphanumeric. On every other input it returns a one-digit string.
  \<open>find_valid_cusips\<close> raises for every 7-character code with a character that is not
  alphanumeric.
\<close>

theorem compute_check_digit_raises:
  "(compute_check_digit s = Inl ValueError \<longleftrightarrow>
      length s \<noteq> 8 \<or> \<not> list_all py_isalnum s \<or>
      \<not> list_all (\<lambda>c. py_isdigit c \<longrightarrow> py_isdecimal c) s) \<and>
   (list_all (\<lambda>c. py_ord c < 128) s \<longrightarrow>
      (compute_check_digit s = Inl ValueError \<longleftrightarrow>
         length s \<noteq> 8 \<or> \<not> list_all py_isalnum s)) \<and>
   (compute_check_digit s \<noteq> Inl ValueError \<longrightarrow>
      (\<exists>d<10. compute_check_digit s = Inr [digit_char d])) \<and>
   (length s = 7 \<and> \<not> list_all py_isalnum s \<longrightarrow>
      find_valid_cusips s ftd_cusips = Inl ValueError)"
proof (intro conjI impI)
  show "compute_check_digit s = Inl ValueError \<longleftrightarrow>
      length s \<noteq> 8 \<or> \<not> list_all py_isalnum s \<or>
      \<not> list_all (\<lambda>c. py_isdigit c \<longrightarrow> py_isdecimal c) s"
    by (simp add: compute_check_digit_Inl)
next
  assume "list_all (\<lambda>c. py_ord c < 128) s"
  then have "list_all (\<lambda>c. py_isdigit c \<longrightarrow> py_isdecimal c) s"
    by (auto simp: list_all_iff ascii_digit_decimal)
  then show "compute_check_digit s = Inl ValueError \<longleftrightarrow>
      length s \<noteq> 8 \<or> \<not> list_all py_isalnum s"
    by (simp add: compute_check_digit_Inl)
next
  assume "compute_check_digit s \<noteq> Inl ValueError"
  then obtain r where "compute_check_digit s = Inr r"
    using compute_check_digit_Inl [of s] by (cases "compute_check_digit s") auto
  then show "\<exists>d<10. compute_check_digit s = Inr [digit_char d]"
    using compute_check_digit_Inr by auto
next
  assume "length s = 7 \<and> \<not> list_all py_isalnum s"
  then show "find_valid_cusips s ftd_cusips = Inl ValueError"
    by (simp add: find_valid_cusips_7_raises)
qed

text \<open>
  The claim as stated fails on seven zeros followed by a superscript two: the input is
  8 characters long and alphanumeric, and \<open>compute_check_digit\<close> raises.
\<close>

theorem compute_check_digit_raises_counterexample:
  "length (''0000000'' @ [CHR 0xB2]) = 8 \<and>
   str_isalnum (''0000000'' @ [CHR 0xB2]) \<and>
   compute_check_digit (''0000000'' @ [CHR 0xB2]) = Inl ValueError"
  by code_simp

theorem compute_check_digit_raises_witness:
  "list_all (\<lambda>c. py_ord c < 128) ''12-4567'' \<and> length ''12-4567'' = 7 \<and>
   \<not> list_all py_isalnum ''12-4567'' \<and>
   compute_check_digit ''12-4567'' = Inl ValueError \<and>
   find_valid_cusips ''12-4567'' {''594918104''} = Inl ValueError \<and>
   compute_check_digit ''59491810'' \<noteq> Inl ValueError \<and>
   (\<exists>d<10. compute_check_digit ''59491810'' = Inr [digit_char d])"
proof -
  have a: "list_all (\<lambda>c. py_ord c < 128) ''12-4567''" by code_simp
  have b: "length ''12-4567'' = 7 \<and> \<not> list_all py_isalnum ''12-4567''" by code_simp
  have c: "compute_check_digit ''59491810'' \<noteq> Inl ValueError" by code_simp
  show ?thesis
    using a b c compute_check_digit_raises [of "''12-4567''" "{''594918104''}"]
      compute_check_digit_raises [of "''59491810''" "{}"]
    by simp
qed

lemma alphabet_cusip_chars: "list_all cusip_char alphabet"
  by code_simp

lemma alphabet_snoc: "alphabet = butlast alphabet @ [CHR ''9'']"
  by (simp add: alphabet_def)

lemma find_snoc:
  "find P (xs @ [y]) = (case find P xs of Some x \<Rightarrow> Some x | None \<Rightarrow> if P y then Some y else None)"
  by (induction xs) auto

lemma find_None_list_ex: "find P xs = None \<longleftrightarrow> \<not> list_ex P xs"
  by (induction xs) auto

lemma try_left_padding_spec:
  assumes "length c = 7" "list_all cusip_char c" "list_all cusip_char chs"
  shows "try_left_padding chs c ftd =
           Inr (map_option (\<lambda>ch. spec_completion (ch # c))
                  (find (\<lambda>ch. spec_completion (ch # c) \<in> ftd) chs))"
  using assms(3)
proof (induction chs)
  case Nil
  then show ?case by simp
next
  case (Cons ch chs)
  then have stem: "length (ch # c) = 8" "list_all cusip_char (ch # c)"
    using assms(1,2) by simp_all
  have "compute_check_digit (ch # c) = Inr [digit_char (spec_check_digit (ch # c))]"
    by (rule compute_check_digit_cusip [OF stem])
  then show ?case
    using Cons by (simp add: Let_def spec_completion_def)
qed

lemma find_valid_cusips_7_spec:
  assumes len: "length c = 7" and chars: "list_all cusip_char c"
  shows "find_valid_cusips c ftd =
           Inr (case find (\<lambda>ch. spec_completion (ch # c) \<in> ftd) alphabet of
                  Some ch \<Rightarrow> Some (spec_completion (ch # c))
                | None \<Rightarrow> if spec_completion (c @ ''9'') \<in> ftd
                          then Some (spec_completion (c @ ''9'')) else None)"
proof -
  have last: "last alphabet = CHR ''9''" by (simp add: alphabet_def)
  have nine: "cusip_char CHR ''9''" by code_simp
  have stem: "length (c @ ''9'') = 8" "list_all cusip_char (c @ ''9'')"
    using len chars nine by simp_all
  have cd: "compute_check_digit (c @ ''9'') = Inr [digit_char (spec_check_digit (c @ ''9''))]"
    by (rule compute_check_digit_cusip [OF stem])
  show ?thesis
    using len cd last
    by (simp add: find_valid_cusips_def try_left_padding_spec [OF len chars alphabet_cusip_chars]
        Let_def spec_completion_def split: option.splits)
qed

lemma find_valid_cusips_8_spec:
  assumes len: "length c = 8" and chars: "list_all cusip_char c"
  shows "find_valid_cusips c ftd =
           Inr (if spec_completion c \<in> ftd then Some (spec_completion c) else None)"
  using compute_check_digit_cusip [OF len chars] len
  by (simp add: find_valid_cusips_8 spec_completion_def)

lemma find_valid_cusips_spec:
  assumes plain: "plain_code c"
    and clear: "\<not> (length c = 7 \<and> find (\<lambda>ch. spec_completion (ch # c) \<in> ftd) alphabet = None \<and>
             list_ex (\<lambda>ch. spec_completion (c @ [ch]) \<in> ftd) (butlast alphabet))"
  shows "find_valid_cusips c ftd = Inr (spec_checksum_repair ftd c)"
proof (cases "length c = 7")
  case True
  then have chars: "list_all cusip_char c" using plain by (simp add: plain_code_def)
  show ?thesis
  proof (cases "find (\<lambda>ch. spec_completion (ch # c) \<in> ftd) alphabet")
    case (Some ch)
    then show ?thesis
      using True by (simp add: find_valid_cusips_7_spec [OF True chars] spec_checksum_repair_def)
  next
    case None
    then have "\<not> list_ex (\<lambda>ch. spec_completion (c @ [ch]) \<in> ftd) (butlast alphabet)"
      using clear True by simp
    then have early: "find (\<lambda>ch. spec_completion (c @ [ch]) \<in> ftd) (butlast alphabet) = None"
      by (simp add: find_None_list_ex)
    have "find (\<lambda>ch. spec_completion (c @ [ch]) \<in> ftd) alphabet
          = find (\<lambda>ch. spec_completion (c @ [ch]) \<in> ftd) (butlast alphabet @ [CHR ''9''])"
      using alphabet_snoc by simp
    also have "\<dots> = (if spec_completion (c @ ''9'') \<in> ftd then Some CHR ''9'' else None)"
      by (simp only: find_snoc early option.case)
    finally show ?thesis
      using True None
      by (simp add: find_valid_cusips_7_spec [OF True chars] spec_checksum_repair_def)
  qed
next
  case False
  show ?thesis
  proof (cases "length c = 8")
    case True
    then have chars: "list_all cusip_char c" using plain by (simp add: plain_code_def)
    show ?thesis
      using True by (simp add: find_valid_cusips_8_spec [OF True chars] spec_checksum_repair_def)
  next
    case other: False
    then show ?thesis
      using False by (simp add: find_valid_cusips_def spec_checksum_repair_def)
  qed
qed

lemma plain_code_returns:
  assumes "plain_code c"
  shows "\<exists>r. find_valid_cusips c ftd = Inr r"
proof (cases "length c = 7")
  case True
  then have "list_all cusip_char c" using assms by (simp add: plain_code_def)
  then show ?thesis using find_valid_cusips_7_spec [OF True] by blast
next
  case False
  show ?thesis
  proof (cases "length c = 8")
    case True
    then have "list_all cusip_char c" using assms by (simp add: plain_code_def)
    then show ?thesis using find_valid_cusips_8_spec [OF True] by blast
  next
    case other: False
    then show ?thesis using False by (simp add: find_valid_cusips_def)
  qed
qed

lemma zfill_plain: "plain_code c \<Longrightarrow> zfill 9 c = spec_left_pad c"
  by (auto simp: plain_code_def zfill_def spec_left_pad_def)

lemma pad_end_spec: "pad_end 9 CHR ''0'' c = spec_right_pad c"
  by (simp add: pad_end_def spec_right_pad_def)

lemma chosen_fix_spec:
  assumes plain: "plain_code c" and clear: "\<not> suffix_completed_early ftd c"
  shows "chosen_fix ftd c = spec_repair_by_priority ftd c"
proof (cases "spec_left_pad c \<in> ftd \<or> spec_right_pad c \<in> ftd")
  case True
  then show ?thesis
    by (auto simp: chosen_fix_def spec_repair_by_priority_def zfill_plain [OF plain] pad_end_spec)
next
  case False
  then have "\<not> (length c = 7 \<and> find (\<lambda>ch. spec_completion (ch # c) \<in> ftd) alphabet = None \<and>
             list_ex (\<lambda>ch. spec_completion (c @ [ch]) \<in> ftd) (butlast alphabet))"
    using clear by (simp add: suffix_completed_early_def)
  then have "find_valid_cusips c ftd = Inr (spec_checksum_repair ftd c)"
    by (rule find_valid_cusips_spec [OF plain])
  then show ?thesis
    using False
    by (simp add: chosen_fix_def spec_repair_by_priority_def zfill_plain [OF plain] pad_end_spec
        split: option.splits)
qed

lemma prefix_completion_chosen:
  assumes len: "length c = 7" and chars: "list_all cusip_char c"
    and left: "spec_left_pad c \<notin> ftd" and right: "spec_right_pad c \<notin> ftd"
    and ch: "ch \<in> set alphabet" "spec_completion (ch # c) \<in> ftd"
  shows "\<exists>ch'. ch' \<in> set alphabet \<and> spec_completion (ch' # c) \<in> ftd \<and>
           chosen_fix ftd c = spec_completion (ch' # c)"
proof -
  have plain: "plain_code c"
  proof -
    have "c \<noteq> []" using len by auto
    then have "cusip_char (hd c)" using chars by (cases c) simp_all
    moreover have "\<not> cusip_char CHR ''-''" "\<not> cusip_char CHR ''+''" by code_simp+
    ultimately show ?thesis using chars by (auto simp: plain_code_def)
  qed
  have "find (\<lambda>ch. spec_completion (ch # c) \<in> ftd) alphabet \<noteq> None"
    using ch by (auto simp: find_None_iff)
  then obtain ch' where found: "find (\<lambda>ch. spec_completion (ch # c) \<in> ftd) alphabet = Some ch'"
    by auto
  then have ch': "ch' \<in> set alphabet" "spec_completion (ch' # c) \<in> ftd"
    by (auto simp: find_Some_iff)
  have "chosen_fix ftd c = spec_completion (ch' # c)"
    using left right found
    by (simp add: chosen_fix_def zfill_plain [OF plain] pad_end_spec
        find_valid_cusips_7_spec [OF len chars])
  then show ?thesis using ch' by blast
qed

lemma spec_completion_code:
  assumes "length stem = 8" "list_all cusip_char stem" "compute_check_digit stem = Inr d"
  shows "spec_completion stem = stem @ d"
  using compute_check_digit_cusip [OF assms(1,2)] assms(3) by (simp add: spec_completion_def)

text \<open>
  Claim C2, amended. The short-code pass completes exactly when checksum-assisted repair
  raises on no code that reaches it, and it completes when every code is plain: without
  a leading sign and, if 7 or 8 characters long, made of digits and capital letters.
  When it completes, every plain code of the batch is fixed in the specification's
  priority order: (a) the left-zero-padded form if that is in the reference set, else
  (b) the right-zero-padded form if that is, else (c) the result of checksum-assisted
  repair, else (d) the left-zero-padded form. So a 7-character code of digits and capital
  letters that neither padding repairs and that a prefix completes to a member of the
  reference set is fixed to a prefix completion in the reference set, not to the
  zero-pad fallback. The statement says nothing about a 7-character code that only a
  suffix among the first 35 characters completes: that case is claim C3.
\<close>

theorem short_code_repair_priority:
  "((\<exists>fx. cusip_fixes ftd_cusips df_cusips = Inr fx) \<longleftrightarrow>
      (\<forall>c\<in>set df_cusips. reaches_checksum ftd_cusips c \<longrightarrow>
         (\<exists>r. find_valid_cusips c ftd_cusips = Inr r))) \<and>
   (list_all plain_code df_cusips \<longrightarrow> (\<exists>fx. cusip_fixes ftd_cusips df_cusips = Inr fx)) \<and>
   (cusip_fixes ftd_cusips df_cusips = Inr fx \<and> c \<in> set df_cusips \<and> plain_code c \<and>
    \<not> suffix_completed_early ftd_cusips c \<longrightarrow>
      fx c = Some (spec_repair_by_priority ftd_cusips c)) \<and>
   (cusip_fixes ftd_cusips df_cusips = Inr fx \<and> c \<in> set df_cusips \<and> length c = 7 \<and>
    list_all cusip_char c \<and> spec_left_pad c \<notin> ftd_cusips \<and> spec_right_pad c \<notin> ftd_cusips \<and>
    ch \<in> set alphabet \<and> spec_completion (ch # c) \<in> ftd_cusips \<longrightarrow>
      (\<exists>ch'. ch' \<in> set alphabet \<and> spec_completion (ch' # c) \<in> ftd_cusips \<and>
             fx c = Some (spec_completion (ch' # c))))"
proof (intro conjI impI)
  show "(\<exists>fx. cusip_fixes ftd_cusips df_cusips = Inr fx) \<longleftrightarrow>
      (\<forall>c\<in>set df_cusips. reaches_checksum ftd_cusips c \<longrightarrow>
         (\<exists>r. find_valid_cusips c ftd_cusips = Inr r))"
    by (rule cusip_fixes_completes)
next
  assume "list_all plain_code df_cusips"
  then have "\<forall>c\<in>set df_cusips. reaches_checksum ftd_cusips c \<longrightarrow>
         (\<exists>r. find_valid_cusips c ftd_cusips = Inr r)"
    using plain_code_returns by (auto simp: list_all_iff)
  then show "\<exists>fx. cusip_fixes ftd_cusips df_cusips = Inr fx"
    by (simp only: cusip_fixes_completes)
next
  assume a: "cusip_fixes ftd_cusips df_cusips = Inr fx \<and> c \<in> set df_cusips \<and> plain_code c \<and>
    \<not> suffix_completed_early ftd_cusips c"
  then have "fx c = Some (chosen_fix ftd_cusips c)"
    using cusip_fixes_lookup [of ftd_cusips df_cusips fx c] by simp
  then show "fx c = Some (spec_repair_by_priority ftd_cusips c)"
    using a chosen_fix_spec by simp
next
  assume a: "cusip_fixes ftd_cusips df_cusips = Inr fx \<and> c \<in> set df_cusips \<and> length c = 7 \<and>
    list_all cusip_char c \<and> spec_left_pad c \<notin> ftd_cusips \<and> spec_right_pad c \<notin> ftd_cusips \<and>
    ch \<in> set alphabet \<and> spec_completion (ch # c) \<in> ftd_cusips"
  then have fx: "fx c = Some (chosen_fix ftd_cusips c)"
    using cusip_fixes_lookup [of ftd_cusips df_cusips fx c] by simp
  from a obtain ch' where "ch' \<in> set alphabet" "spec_completion (ch' # c) \<in> ftd_cusips"
    "chosen_fix ftd_cusips c = spec_completion (ch' # c)"
    using prefix_completion_chosen [of c ftd_cusips ch] by blast
  then show "\<exists>ch'. ch' \<in> set alphabet \<and> spec_completion (ch' # c) \<in> ftd_cusips \<and>
             fx c = Some (spec_completion (ch' # c))"
    using fx by auto
qed

theorem short_code_repair_priority_witness:
  "\<exists>fx. cusip_fixes {''594918104'', ''000000123'', ''037833100''}
           [''123'', ''0378331'', ''9491810'', ''AB''] = Inr fx \<and>
        fx ''123'' = Some (spec_repair_by_priority {''594918104'', ''000000123'', ''037833100''} ''123'') \<and>
        fx ''123'' = Some ''000000123'' \<and>
        fx ''0378331'' = Some (spec_repair_by_priority {''594918104'', ''000000123'', ''037833100''} ''0378331'') \<and>
        fx ''0378331'' = Some ''037833100'' \<and>
        fx ''9491810'' = Some (spec_repair_by_priority {''594918104'', ''000000123'', ''037833100''} ''9491810'') \<and>
        fx ''9491810'' = Some ''594918104'' \<and>
        fx ''AB'' = Some (spec_repair_by_priority {''594918104'', ''000000123'', ''037833100''} ''AB'') \<and>
        fx ''AB'' = Some ''0000000AB'' \<and>
        (\<exists>ch'. ch' \<in> set alphabet \<and>
           spec_completion (ch' # ''9491810'') \<in> {''594918104'', ''000000123'', ''037833100''} \<and>
           fx ''9491810'' = Some (spec_completion (ch' # ''9491810'')))"
proof -
  let ?ftd = "{''594918104'', ''000000123'', ''037833100''}"
  let ?cs = "[''123'', ''0378331'', ''9491810'', ''AB'']"
  have plain: "list_all plain_code ?cs" by code_simp
  have "\<exists>fx. cusip_fixes ?ftd ?cs = Inr fx"
    by (rule short_code_repair_priority [THEN conjunct2, THEN conjunct1, THEN mp]) (rule plain)
  then obtain fx where fx: "cusip_fixes ?ftd ?cs = Inr fx" ..
  have "short_code_fixes ?ftd ?cs =
      Inr [(''123'', ''000000123''), (''0378331'', ''037833100''),
           (''9491810'', ''594918104''), (''AB'', ''0000000AB'')]"
    by code_simp
  then have "fx = py_dict [(''123'', ''000000123''), (''0378331'', ''037833100''),
           (''9491810'', ''594918104''), (''AB'', ''0000000AB'')]"
    using fx by (simp add: cusip_fixes_def)
  then have vals: "fx ''123'' = Some ''000000123''" "fx ''0378331'' = Some ''037833100''"
    "fx ''9491810'' = Some ''594918104''" "fx ''AB'' = Some ''0000000AB''"
    by (simp_all add: py_dict_def)
  have p: "plain_code ''123''" "plain_code ''0378331''" "plain_code ''9491810''" "plain_code ''AB''"
    using plain by simp_all
  have s1: "\<not> suffix_completed_early ?ftd ''123''" "\<not> suffix_completed_early ?ftd ''AB''"
    by (simp_all add: suffix_completed_early_def)
  have "spec_right_pad ''0378331'' \<in> ?ftd" by code_simp
  then have s2: "\<not> suffix_completed_early ?ftd ''0378331''"
    by (simp only: suffix_completed_early_def not_True_eq_False simp_thms)
  have cd: "compute_check_digit ''59491810'' = Inr ''4''" by code_simp
  have chars: "list_all cusip_char ''59491810''" by code_simp
  have len: "length ''59491810'' = 8" by simp
  have "spec_completion ''59491810'' = ''59491810'' @ ''4''"
    by (rule spec_completion_code [OF len chars cd])
  then have five: "spec_completion (CHR ''5'' # ''9491810'') \<in> ?ftd" by simp
  have "CHR ''5'' \<in> set alphabet" by (simp add: alphabet_def)
  then have "find (\<lambda>ch. spec_completion (ch # ''9491810'') \<in> ?ftd) alphabet \<noteq> None"
    unfolding find_None_iff using five by blast
  then have s3: "\<not> suffix_completed_early ?ftd ''9491810''"
    by (simp only: suffix_completed_early_def simp_thms)
  have m: "''123'' \<in> set ?cs" "''0378331'' \<in> set ?cs" "''9491810'' \<in> set ?cs"
    "''AB'' \<in> set ?cs" by simp_all
  have r1: "fx ''123'' = Some (spec_repair_by_priority ?ftd ''123'')"
    by (rule short_code_repair_priority [of ?ftd ?cs fx "''123''",
        THEN conjunct2, THEN conjunct2, THEN conjunct1, THEN mp])
      (simp only: fx m(1) p(1) s1(1) simp_thms)
  have r2: "fx ''0378331'' = Some (spec_repair_by_priority ?ftd ''0378331'')"
    by (rule short_code_repair_priority [of ?ftd ?cs fx "''0378331''",
        THEN conjunct2, THEN conjunct2, THEN conjunct1, THEN mp])
      (simp only: fx m(2) p(2) s2 simp_thms)
  have r3: "fx ''9491810'' = Some (spec_repair_by_priority ?ftd ''9491810'')"
    by (rule short_code_repair_priority [of ?ftd ?cs fx "''9491810''",
        THEN conjunct2, THEN conjunct2, THEN conjunct1, THEN mp])
      (simp only: fx m(3) p(3) s3 simp_thms)
  have r4: "fx ''AB'' = Some (spec_repair_by_priority ?ftd ''AB'')"
    by (rule short_code_repair_priority [of ?ftd ?cs fx "''AB''",
        THEN conjunct2, THEN conjunct2, THEN conjunct1, THEN mp])
      (simp only: fx m(4) p(4) s1(2) simp_thms)
  have q: "length ''9491810'' = 7" "list_all cusip_char ''9491810''"
    "spec_left_pad ''9491810'' \<notin> ?ftd" "spec_right_pad ''9491810'' \<notin> ?ftd"
    by code_simp+
  have a5: "CHR ''5'' \<in> set alphabet" by (simp add: alphabet_def)
  have r5: "\<exists>ch'. ch' \<in> set alphabet \<and> spec_completion (ch' # ''9491810'') \<in> ?ftd \<and>
           fx ''9491810'' = Some (spec_completion (ch' # ''9491810''))"
    by (rule short_code_repair_priority [of ?ftd ?cs fx "''9491810''" "CHR ''5''",
        THEN conjunct2, THEN conjunct2, THEN conjunct2, THEN mp])
      (intro conjI fx m(3) q a5 five)
  show ?thesis
    by (intro exI [of _ fx] conjI fx r1 r2 r3 r4 vals r5)
qed

text \<open>
  The claim as stated fails on a short code with a character that is not alphanumeric:
  neither padding matches, checksum-assisted repair raises, and the code is not
  zero-padded; the pass ends with the exception.
\<close>

theorem short_code_repair_priority_counterexample:
  "cusip_fixes {} [''12-4567''] = Inl ValueError"
proof -
  have "short_code_fixes {} [''12-4567''] = Inl ValueError" by code_simp
  then show ?thesis by (simp add: cusip_fixes_def)
qed

text \<open>
  Claim C3. For a 7-character code that no prefix completes, \<open>find_valid_cusips\<close> tries
  one suffix only, the character 9. At the code 5949181 with the reference set
  {594918104}, the only completion in the reference set is the suffix completion with
  the character 0 (stem 59491810, check digit 4): \<open>find_valid_cusips\<close> returns no match
  and the pass falls back to the zero-padded 005949181.
\<close>

theorem suffix_completion_not_tried:
  "(length c = 7 \<and> try_left_padding alphabet c ftd_cusips = Inr None \<longrightarrow>
      find_valid_cusips c ftd_cusips =
        (case compute_check_digit (c @ ''9'') of
           Inl e \<Rightarrow> Inl e
         | Inr d \<Rightarrow> Inr (if c @ ''9'' @ d \<in> ftd_cusips then Some (c @ ''9'' @ d) else None))) \<and>
   compute_check_digit ''59491810'' = Inr ''4'' \<and>
   find_valid_cusips ''5949181'' {''594918104''} = Inr None \<and>
   short_code_fixes {''594918104''} [''5949181''] = Inr [(''5949181'', ''005949181'')]"
proof (intro conjI impI)
  assume "length c = 7 \<and> try_left_padding alphabet c ftd_cusips = Inr None"
  moreover have "last alphabet = CHR ''9''" by (simp add: alphabet_def)
  ultimately show "find_valid_cusips c ftd_cusips =
        (case compute_check_digit (c @ ''9'') of
           Inl e \<Rightarrow> Inl e
         | Inr d \<Rightarrow> Inr (if c @ ''9'' @ d \<in> ftd_cusips then Some (c @ ''9'' @ d) else None))"
    by (simp add: find_valid_cusips_def Let_def split: sum.splits)
next
  show "compute_check_digit ''59491810'' = Inr ''4''" by code_simp
  show "find_valid_cusips ''5949181'' {''594918104''} = Inr None" by code_simp
  show "short_code_fixes {''594918104''} [''5949181''] = Inr [(''5949181'', ''005949181'')]"
    by code_simp
qed

theorem suffix_completion_not_tried_witness:
  "length ''5949181'' = 7 \<and>
   try_left_padding alphabet ''5949181'' {''594918104''} = Inr None \<and>
   compute_check_digit (''5949181'' @ ''9'') = Inr ''5'' \<and>
   find_valid_cusips ''5949181'' {''594918104''} = Inr None"
proof -
  have a: "length ''5949181'' = 7" by simp
  have b: "try_left_padding alphabet ''5949181'' {''594918104''} = Inr None" by code_simp
  have c: "compute_check_digit (''5949181'' @ ''9'') = Inr ''5''" by code_simp
  show ?thesis
    using a b c suffix_completion_not_tried [of "''5949181''" "{''594918104''}"] by simp
qed

text \<open>
  Claim C9, amended. For an 8-character code on which \<open>compute_check_digit\<close> returns,
  \<open>find_valid_cusips\<close> appends the check digit and accepts the 9-character code if and
  only if it is in the reference set; in a pass that completes, such a code that reaches
  checksum-assisted repair is fixed to that code when accepted and to its left-zero-padded
  form otherwise. For an 8-character code on which \<open>compute_check_digit\<close> raises,
  \<open>find_valid_cusips\<close> raises, and so does the pass when the code reaches
  checksum-assisted repair.
\<close>

theorem eight_char_checksum_repair:
  "(length c = 8 \<and> compute_check_digit c = Inr d \<longrightarrow>
      find_valid_cusips c ftd_cusips
        = Inr (if c @ d \<in> ftd_cusips then Some (c @ d) else None)) \<and>
   (length c = 8 \<and> compute_check_digit c = Inl ValueError \<longrightarrow>
      find_valid_cusips c ftd_cusips = Inl ValueError) \<and>
   (cusip_fixes ftd_cusips df_cusips = Inr fx \<and> c \<in> set df_cusips \<and> length c = 8 \<and>
    reaches_checksum ftd_cusips c \<longrightarrow>
      (\<exists>d. compute_check_digit c = Inr d \<and>
           fx c = Some (if c @ d \<in> ftd_cusips then c @ d else zfill 9 c))) \<and>
   (c \<in> set df_cusips \<and> length c = 8 \<and> reaches_checksum ftd_cusips c \<and>
    compute_check_digit c = Inl ValueError \<longrightarrow>
      cusip_fixes ftd_cusips df_cusips = Inl ValueError)"
proof (intro conjI impI)
  assume "length c = 8 \<and> compute_check_digit c = Inr d"
  then show "find_valid_cusips c ftd_cusips
      = Inr (if c @ d \<in> ftd_cusips then Some (c @ d) else None)"
    by (simp add: find_valid_cusips_8)
next
  assume "length c = 8 \<and> compute_check_digit c = Inl ValueError"
  then show "find_valid_cusips c ftd_cusips = Inl ValueError"
    by (simp add: find_valid_cusips_8)
next
  assume a: "cusip_fixes ftd_cusips df_cusips = Inr fx \<and> c \<in> set df_cusips \<and> length c = 8 \<and>
    reaches_checksum ftd_cusips c"
  then obtain r where r: "find_valid_cusips c ftd_cusips = Inr r"
    using cusip_fixes_reaches by blast
  then obtain d where d: "compute_check_digit c = Inr d"
    using a by (auto simp: find_valid_cusips_8 split: sum.splits)
  have "fx c = Some (chosen_fix ftd_cusips c)"
    using a cusip_fixes_lookup [of ftd_cusips df_cusips fx c] by simp
  then have "fx c = Some (if c @ d \<in> ftd_cusips then c @ d else zfill 9 c)"
    using a d by (simp add: chosen_fix_def reaches_checksum_def find_valid_cusips_8)
  then show "\<exists>d. compute_check_digit c = Inr d \<and>
           fx c = Some (if c @ d \<in> ftd_cusips then c @ d else zfill 9 c)"
    using d by blast
next
  assume a: "c \<in> set df_cusips \<and> length c = 8 \<and> reaches_checksum ftd_cusips c \<and>
    compute_check_digit c = Inl ValueError"
  then have "find_valid_cusips c ftd_cusips = Inl ValueError"
    by (simp add: find_valid_cusips_8)
  then have "\<not> (\<exists>fx. cusip_fixes ftd_cusips df_cusips = Inr fx)"
    using a cusip_fixes_completes [of ftd_cusips df_cusips] by auto
  then obtain e where "cusip_fixes ftd_cusips df_cusips = Inl e"
    by (cases "cusip_fixes ftd_cusips df_cusips") auto
  then show "cusip_fixes ftd_cusips df_cusips = Inl ValueError"
    using cusip_fixes_Inl by blast
qed

theorem eight_char_checksum_repair_witness:
  "\<exists>fx. cusip_fixes {''594918104''} [''59491810'', ''03783310''] = Inr fx \<and>
        fx ''59491810'' = Some ''594918104'' \<and> fx ''03783310'' = Some ''003783310''"
proof -
  let ?ftd = "{''594918104''}"
  let ?cs = "[''59491810'', ''03783310'']"
  have "short_code_fixes ?ftd ?cs =
      Inr [(''59491810'', ''594918104''), (''03783310'', ''003783310'')]"
    by code_simp
  then obtain fx where fx: "cusip_fixes ?ftd ?cs = Inr fx"
    by (simp add: cusip_fixes_def)
  have r1: "reaches_checksum ?ftd ''59491810''" by code_simp
  have r2: "reaches_checksum ?ftd ''03783310''" by code_simp
  have d1: "compute_check_digit ''59491810'' = Inr ''4''" by code_simp
  have d2: "compute_check_digit ''03783310'' = Inr ''0''" by code_simp
  have z2: "zfill 9 ''03783310'' = ''003783310''" by code_simp
  have "fx ''59491810'' = Some ''594918104''"
    using fx r1 d1 eight_char_checksum_repair [of "''59491810''" _ ?ftd ?cs fx] by auto
  moreover have "fx ''03783310'' = Some ''003783310''"
    using fx r2 d2 z2 eight_char_checksum_repair [of "''03783310''" _ ?ftd ?cs fx] by auto
  ultimately show ?thesis using fx by blast
qed

text \<open>
  The claim as stated fails on an 8-character code with a character that is not
  alphanumeric: the code is neither accepted nor zero-padded, the pass raises.
\<close>

theorem eight_char_checksum_repair_counterexample:
  "length ''1234567-'' = 8 \<and> find_valid_cusips ''1234567-'' {} = Inl ValueError \<and>
   short_code_fixes {} [''1234567-''] = Inl ValueError"
  by code_simp

section \<open>Properties of the remediation transaction\<close>

lemma read_holdings_row:
  "r \<in> set tbl \<Longrightarrow> normalise_row norm r \<in> set (read_holdings norm tbl)"
  by (simp add: read_holdings_def)

lemma title_in_tuple:
  assumes closed: "\<forall>x\<in>ftd. norm x = x" and r: "r \<in> set tbl"
  shows "titleofclass r \<in> set (map titleofclass
            (filter (\<lambda>r. titleofclass r \<in> ftd) (read_holdings norm tbl)))
         \<longleftrightarrow> titleofclass r \<in> ftd"
proof
  assume "titleofclass r \<in> set (map titleofclass
            (filter (\<lambda>r. titleofclass r \<in> ftd) (read_holdings norm tbl)))"
  then show "titleofclass r \<in> ftd" by auto
next
  assume t: "titleofclass r \<in> ftd"
  then have "titleofclass (normalise_row norm r) = titleofclass r"
    using closed by (simp add: normalise_row_def)
  then have "normalise_row norm r \<in> set (filter (\<lambda>r. titleofclass r \<in> ftd) (read_holdings norm tbl))"
    using t read_holdings_row [OF r, of norm] by simp
  then have "titleofclass (normalise_row norm r) \<in> set (map titleofclass
            (filter (\<lambda>r. titleofclass r \<in> ftd) (read_holdings norm tbl)))"
    unfolding set_map by (rule imageI)
  then show "titleofclass r \<in> set (map titleofclass
            (filter (\<lambda>r. titleofclass r \<in> ftd) (read_holdings norm tbl)))"
    using \<open>titleofclass (normalise_row norm r) = titleofclass r\<close> by simp
qed

lemma name_in_tuple:
  assumes closed: "\<forall>x\<in>ftd. norm x = x" and r: "r \<in> set tbl"
  shows "nameofissuer r \<in> set (map nameofissuer
            (filter (\<lambda>r. nameofissuer r \<in> ftd) (read_holdings norm tbl)))
         \<longleftrightarrow> nameofissuer r \<in> ftd"
proof
  assume "nameofissuer r \<in> set (map nameofissuer
            (filter (\<lambda>r. nameofissuer r \<in> ftd) (read_holdings norm tbl)))"
  then show "nameofissuer r \<in> ftd" by auto
next
  assume t: "nameofissuer r \<in> ftd"
  then have eq: "nameofissuer (normalise_row norm r) = nameofissuer r"
    using closed by (simp add: normalise_row_def)
  then have "normalise_row norm r \<in> set (filter (\<lambda>r. nameofissuer r \<in> ftd) (read_holdings norm tbl))"
    using t read_holdings_row [OF r, of norm] by simp
  then have "nameofissuer (normalise_row norm r) \<in> set (map nameofissuer
            (filter (\<lambda>r. nameofissuer r \<in> ftd) (read_holdings norm tbl)))"
    unfolding set_map by (rule imageI)
  then show "nameofissuer r \<in> set (map nameofissuer
            (filter (\<lambda>r. nameofissuer r \<in> ftd) (read_holdings norm tbl)))"
    using eq by simp
qed

lemma two_updates:
  assumes closed: "\<forall>x\<in>ftd. norm x = x"
  shows "update_nameofissuer
           (map nameofissuer (filter (\<lambda>r. nameofissuer r \<in> ftd) (read_holdings norm tbl)))
           (update_titleofclass
              (map titleofclass (filter (\<lambda>r. titleofclass r \<in> ftd) (read_holdings norm tbl)))
              tbl)
         = map (swapped_row ftd) tbl"
proof -
  let ?ts = "map titleofclass (filter (\<lambda>r. titleofclass r \<in> ftd) (read_holdings norm tbl))"
  let ?ns = "map nameofissuer (filter (\<lambda>r. nameofissuer r \<in> ftd) (read_holdings norm tbl))"
  have row: "(let r1 = (if titleofclass r \<in> set ?ts
                        then r\<lparr>cusip := titleofclass r, titleofclass := cusip r\<rparr> else r)
              in if nameofissuer r1 \<in> set ?ns
                 then r1\<lparr>cusip := nameofissuer r1, nameofissuer := titleofclass r1,
                         titleofclass := cusip r1\<rparr>
                 else r1) = swapped_row ftd r" if "r \<in> set tbl" for r
    unfolding title_in_tuple [OF closed that] Let_def
    using name_in_tuple [OF closed that]
    by (simp add: swapped_row_def)
  show ?thesis
    unfolding update_nameofissuer_def update_titleofclass_def map_map
    by (rule map_cong [OF refl]) (use row in \<open>simp add: Let_def\<close>)
qed

lemma column_swap_stage_Inr:
  "column_swap_stage db_ok ftd df conn = Inr conn' \<longleftrightarrow>
     db_ok FixTitleOfClass \<and> db_ok FixNameOfIssuer \<and>
     conn' = conn\<lparr>working :=
       update_nameofissuer (map nameofissuer (filter (\<lambda>r. nameofissuer r \<in> ftd) df))
         (update_titleofclass (map titleofclass (filter (\<lambda>r. titleofclass r \<in> ftd) df))
            (working conn))\<rparr>"
  by (auto simp: column_swap_stage_def cur_execute_def Let_def)

text \<open>
  Claim C5, amended. The column-swap stage completes exactly when the database accepts
  both updates. With a reference set of normalised codes, it then leaves every holding
  row as follows: a row whose titleofclass, and not its nameofissuer, held a reference
  code has cusip and titleofclass exchanged; a row whose nameofissuer, and not its
  titleofclass, held a reference code has cusip = old nameofissuer, nameofissuer = old
  titleofclass and titleofclass = old cusip; a row with a reference code in both columns
  has cusip and nameofissuer exchanged and keeps its titleofclass; every other row is
  unchanged. Nothing is committed by the stage.
\<close>

theorem column_swap_rows:
  "((\<exists>conn'. column_swap_stage db_ok ftd_cusips (read_holdings norm (working conn)) conn
        = Inr conn') \<longleftrightarrow> db_ok FixTitleOfClass \<and> db_ok FixNameOfIssuer) \<and>
   ((\<forall>x\<in>ftd_cusips. norm x = x) \<and>
    column_swap_stage db_ok ftd_cusips (read_holdings norm (working conn)) conn = Inr conn' \<longrightarrow>
      committed conn' = committed conn \<and>
      working conn' = map (swapped_row ftd_cusips) (working conn))"
proof (intro conjI impI)
  show "(\<exists>conn'. column_swap_stage db_ok ftd_cusips (read_holdings norm (working conn)) conn
        = Inr conn') \<longleftrightarrow> db_ok FixTitleOfClass \<and> db_ok FixNameOfIssuer"
    by (simp add: column_swap_stage_Inr)
next
  assume a: "(\<forall>x\<in>ftd_cusips. norm x = x) \<and>
    column_swap_stage db_ok ftd_cusips (read_holdings norm (working conn)) conn = Inr conn'"
  then show "committed conn' = committed conn"
    by (simp add: column_swap_stage_Inr)
  from a have closed: "\<forall>x\<in>ftd_cusips. norm x = x" by simp
  from a show "working conn' = map (swapped_row ftd_cusips) (working conn)"
    by (simp add: column_swap_stage_Inr two_updates [OF closed])
qed

text \<open>
  The claim as stated fails on a row with a reference code in titleofclass and in
  nameofissuer: the second update runs on the result of the first, so cusip receives the
  old nameofissuer, nameofissuer the old cusip, and titleofclass keeps its value.
\<close>

theorem column_swap_rows_counterexample:
  "column_swap_stage (\<lambda>st. True) {''037833100'', ''594918104''}
     (read_holdings normalise_ascii
        [\<lparr>cusip = ''COMMON STOCK'', titleofclass = ''037833100'', nameofissuer = ''594918104''\<rparr>])
     \<lparr>committed = [], working =
        [\<lparr>cusip = ''COMMON STOCK'', titleofclass = ''037833100'', nameofissuer = ''594918104''\<rparr>]\<rparr>
   = Inr \<lparr>committed = [], working =
        [\<lparr>cusip = ''594918104'', titleofclass = ''037833100'', nameofissuer = ''COMMON STOCK''\<rparr>]\<rparr>"
  by code_simp


theorem column_swap_rows_witness:
  "column_swap_stage (\<lambda>st. True) {''037833100'', ''594918104''}
     (read_holdings normalise_ascii
        [\<lparr>cusip = ''COMMON STOCK'', titleofclass = ''037833100'', nameofissuer = ''APPLE INC''\<rparr>,
         \<lparr>cusip = ''COM'', titleofclass = ''CLASS A'', nameofissuer = ''594918104''\<rparr>,
         \<lparr>cusip = ''5949181'', titleofclass = ''COM'', nameofissuer = ''MICROSOFT CORP''\<rparr>])
     \<lparr>committed = [], working =
        [\<lparr>cusip = ''COMMON STOCK'', titleofclass = ''037833100'', nameofissuer = ''APPLE INC''\<rparr>,
         \<lparr>cusip = ''COM'', titleofclass = ''CLASS A'', nameofissuer = ''594918104''\<rparr>,
         \<lparr>cusip = ''5949181'', titleofclass = ''COM'', nameofissuer = ''MICROSOFT CORP''\<rparr>]\<rparr>
   = Inr \<lparr>committed = [], working =
        [\<lparr>cusip = ''037833100'', titleofclass = ''COMMON STOCK'', nameofissuer = ''APPLE INC''\<rparr>,
         \<lparr>cusip = ''594918104'', titleofclass = ''COM'', nameofissuer = ''CLASS A''\<rparr>,
         \<lparr>cusip = ''5949181'', titleofclass = ''COM'', nameofissuer = ''MICROSOFT CORP''\<rparr>]\<rparr>"
proof -
  let ?ftd = "{''037833100'', ''594918104''}"
  let ?tbl = "[\<lparr>cusip = ''COMMON STOCK'', titleofclass = ''037833100'', nameofissuer = ''APPLE INC''\<rparr>,
         \<lparr>cusip = ''COM'', titleofclass = ''CLASS A'', nameofissuer = ''594918104''\<rparr>,
         \<lparr>cusip = ''5949181'', titleofclass = ''COM'', nameofissuer = ''MICROSOFT CORP''\<rparr>]"
  let ?conn = "\<lparr>committed = [], working = ?tbl\<rparr>"
  have n1: "normalise_ascii ''037833100'' = ''037833100''" by code_simp
  have n2: "normalise_ascii ''594918104'' = ''594918104''" by code_simp
  have closed: "\<forall>x\<in>?ftd. normalise_ascii x = x" using n1 n2 by simp
  have rows: "map (swapped_row ?ftd) ?tbl =
        [\<lparr>cusip = ''037833100'', titleofclass = ''COMMON STOCK'', nameofissuer = ''APPLE INC''\<rparr>,
         \<lparr>cusip = ''594918104'', titleofclass = ''COM'', nameofissuer = ''CLASS A''\<rparr>,
         \<lparr>cusip = ''5949181'', titleofclass = ''COM'', nameofissuer = ''MICROSOFT CORP''\<rparr>]"
    by code_simp
  note inst = column_swap_rows [of "\<lambda>st. True" ?ftd normalise_ascii ?conn]
  from inst obtain conn' where
    conn': "column_swap_stage (\<lambda>st. True) ?ftd (read_holdings normalise_ascii (working ?conn)) ?conn
        = Inr conn'"
    by blast
  with inst closed have "committed conn' = committed ?conn"
    "working conn' = map (swapped_row ?ftd) (working ?conn)"
    by blast+
  then have "conn' = \<lparr>committed = [], working = map (swapped_row ?ftd) ?tbl\<rparr>"
    by simp
  then show ?thesis using conn' rows by simp
qed

lemma at_connection_Inl:
  "at_connection c r = Inl (e, c') \<longleftrightarrow> r = Inl e \<and> c' = c"
  by (cases r) (auto simp: at_connection_def)

lemma at_connection_Inr:
  "at_connection c r = Inr x \<longleftrightarrow> r = Inr x"
  by (cases r) (auto simp: at_connection_def)

lemma cur_execute_committed:
  "cur_execute db_ok st upd c = Inr c' \<Longrightarrow> committed c' = committed c \<and> db_ok st"
  by (auto simp: cur_execute_def split: if_splits)

lemma clean_cusips_body_Inl:
  assumes "clean_cusips_body norm db_ok loaded conn = Inl (e, c)"
  shows "committed c = committed conn"
  using assms
  unfolding clean_cusips_body_def Let_def
  by (auto simp: at_connection_Inl at_connection_Inr
      dest!: cur_execute_committed split: sum.splits if_splits)

lemma clean_cusips_body_Inr:
  assumes "clean_cusips_body norm db_ok loaded conn = Inr c"
  shows "committed c = working c \<and> db_ok SelectHoldings \<and> db_ok FixTitleOfClass \<and>
    db_ok FixNameOfIssuer \<and> db_ok FixShortCusips \<and> db_ok CommitTransaction"
  using assms
  unfolding clean_cusips_body_def Let_def
  by (auto simp: at_connection_Inr read_database_def commit_def
      dest!: cur_execute_committed split: sum.splits if_splits)

lemma rollback_same_committed:
  "committed c = committed c' \<Longrightarrow> rollback c = rollback c'"
  by (cases c; cases c') (simp add: rollback_def)

text \<open>
  Claim C8, amended. When a statement of \<open>clean_cusips\<close> raises, nothing has been
  committed since the call: the handler rolls the connection back to the state committed
  before the call, so the corrections of the stages already completed, the column swaps
  included, are undone with the rest, and the exception is re-raised; the handler of
  \<open>post_process_data\<close> ends with that rolled-back connection. That is so whenever the
  database rejects one of the three updates. \<open>clean_cusips\<close> returns only when the
  database accepted all three, with everything committed.
\<close>

theorem clean_cusips_failure:
  "(clean_cusips_body norm db_ok loaded conn = Inl (e, conn') \<longrightarrow>
      committed conn' = committed conn \<and>
      clean_cusips norm db_ok loaded conn = Inl (e, rollback conn) \<and>
      post_process_clean_cusips norm db_ok loaded conn = rollback conn) \<and>
   (\<not> db_ok FixTitleOfClass \<or> \<not> db_ok FixNameOfIssuer \<or> \<not> db_ok FixShortCusips \<longrightarrow>
      (\<exists>e. clean_cusips norm db_ok loaded conn = Inl (e, rollback conn))) \<and>
   (clean_cusips norm db_ok loaded conn = Inr conn' \<longrightarrow>
      committed conn' = working conn' \<and>
      db_ok FixTitleOfClass \<and> db_ok FixNameOfIssuer \<and> db_ok FixShortCusips)"
proof (intro conjI impI)
  assume body: "clean_cusips_body norm db_ok loaded conn = Inl (e, conn')"
  then show same: "committed conn' = committed conn"
    by (rule clean_cusips_body_Inl)
  then have rb: "rollback conn' = rollback conn"
    by (rule rollback_same_committed)
  show "clean_cusips norm db_ok loaded conn = Inl (e, rollback conn)"
    using body rb by (simp add: clean_cusips_def)
  then show "post_process_clean_cusips norm db_ok loaded conn = rollback conn"
    by (simp add: post_process_clean_cusips_def rollback_def)
next
  assume bad: "\<not> db_ok FixTitleOfClass \<or> \<not> db_ok FixNameOfIssuer \<or> \<not> db_ok FixShortCusips"
  obtain e c where body: "clean_cusips_body norm db_ok loaded conn = Inl (e, c)"
    using bad clean_cusips_body_Inr [of norm db_ok loaded conn]
    by (cases "clean_cusips_body norm db_ok loaded conn") auto
  then have "rollback c = rollback conn"
    using clean_cusips_body_Inl rollback_same_committed by blast
  then have "clean_cusips norm db_ok loaded conn = Inl (e, rollback conn)"
    using body by (simp add: clean_cusips_def)
  then show "\<exists>e. clean_cusips norm db_ok loaded conn = Inl (e, rollback conn)" ..
next
  assume "clean_cusips norm db_ok loaded conn = Inr conn'"
  then have body: "clean_cusips_body norm db_ok loaded conn = Inr conn'"
    by (auto simp: clean_cusips_def split: sum.splits prod.splits)
  from clean_cusips_body_Inr [OF body]
  show "committed conn' = working conn'" "db_ok FixTitleOfClass" "db_ok FixNameOfIssuer"
    "db_ok FixShortCusips"
    by simp_all
qed

theorem clean_cusips_failure_witness:
  "\<exists>e. clean_cusips normalise_ascii (\<lambda>st. st \<noteq> FixShortCusips)
       (Inr (TextColumn [''037833100'', ''594918104'']))
     \<lparr>committed =
        [\<lparr>cusip = ''COMMON STOCK'', titleofclass = ''037833100'', nameofissuer = ''APPLE INC''\<rparr>,
         \<lparr>cusip = ''COM'', titleofclass = ''CLASS A'', nameofissuer = ''594918104''\<rparr>,
         \<lparr>cusip = ''5949181'', titleofclass = ''COM'', nameofissuer = ''MICROSOFT CORP''\<rparr>],
      working =
        [\<lparr>cusip = ''COMMON STOCK'', titleofclass = ''037833100'', nameofissuer = ''APPLE INC''\<rparr>,
         \<lparr>cusip = ''COM'', titleofclass = ''CLASS A'', nameofissuer = ''594918104''\<rparr>,
         \<lparr>cusip = ''5949181'', titleofclass = ''COM'', nameofissuer = ''MICROSOFT CORP''\<rparr>]\<rparr>
   = Inl (e, \<lparr>committed =
        [\<lparr>cusip = ''COMMON STOCK'', titleofclass = ''037833100'', nameofissuer = ''APPLE INC''\<rparr>,
         \<lparr>cusip = ''COM'', titleofclass = ''CLASS A'', nameofissuer = ''594918104''\<rparr>,
         \<lparr>cusip = ''5949181'', titleofclass = ''COM'', nameofissuer = ''MICROSOFT CORP''\<rparr>],
      working =
        [\<lparr>cusip = ''COMMON STOCK'', titleofclass = ''037833100'', nameofissuer = ''APPLE INC''\<rparr>,
         \<lparr>cusip = ''COM'', titleofclass = ''CLASS A'', nameofissuer = ''594918104''\<rparr>,
         \<lparr>cusip = ''5949181'', titleofclass = ''COM'', nameofissuer = ''MICROSOFT CORP''\<rparr>]\<rparr>)"
  using clean_cusips_failure [of normalise_ascii "\<lambda>st. st \<noteq> FixShortCusips"
      "Inr (TextColumn [''037833100'', ''594918104''])"
      "\<lparr>committed =
        [\<lparr>cusip = ''COMMON STOCK'', titleofclass = ''037833100'', nameofissuer = ''APPLE INC''\<rparr>,
         \<lparr>cusip = ''COM'', titleofclass = ''CLASS A'', nameofissuer = ''594918104''\<rparr>,
         \<lparr>cusip = ''5949181'', titleofclass = ''COM'', nameofissuer = ''MICROSOFT CORP''\<rparr>],
      working =
        [\<lparr>cusip = ''COMMON STOCK'', titleofclass = ''037833100'', nameofissuer = ''APPLE INC''\<rparr>,
         \<lparr>cusip = ''COM'', titleofclass = ''CLASS A'', nameofissuer = ''594918104''\<rparr>,
         \<lparr>cusip = ''5949181'', titleofclass = ''COM'', nameofissuer = ''MICROSOFT CORP''\<rparr>]\<rparr>"]
  by (simp add: rollback_def)

text \<open>
  The claim as stated fails when the short-code update is rejected after the column-swap
  stage has completed: the swaps made by that stage are rolled back with the rest.
\<close>

theorem clean_cusips_failure_counterexample:
  "column_swap_stage (\<lambda>st. st \<noteq> FixShortCusips) {''037833100'', ''594918104''}
     (read_holdings normalise_ascii
        [\<lparr>cusip = ''COMMON STOCK'', titleofclass = ''037833100'', nameofissuer = ''APPLE INC''\<rparr>,
         \<lparr>cusip = ''COM'', titleofclass = ''CLASS A'', nameofissuer = ''594918104''\<rparr>,
         \<lparr>cusip = ''5949181'', titleofclass = ''COM'', nameofissuer = ''MICROSOFT CORP''\<rparr>])
     \<lparr>committed =
        [\<lparr>cusip = ''COMMON STOCK'', titleofclass = ''037833100'', nameofissuer = ''APPLE INC''\<rparr>,
         \<lparr>cusip = ''COM'', titleofclass = ''CLASS A'', nameofissuer = ''594918104''\<rparr>,
         \<lparr>cusip = ''5949181'', titleofclass = ''COM'', nameofissuer = ''MICROSOFT CORP''\<rparr>],
      working =
        [\<lparr>cusip = ''COMMON STOCK'', titleofclass = ''037833100'', nameofissuer = ''APPLE INC''\<rparr>,
         \<lparr>cusip = ''COM'', titleofclass = ''CLASS A'', nameofissuer = ''594918104''\<rparr>,
         \<lparr>cusip = ''5949181'', titleofclass = ''COM'', nameofissuer = ''MICROSOFT CORP''\<rparr>]\<rparr>
   = Inr \<lparr>committed =
        [\<lparr>cusip = ''COMMON STOCK'', titleofclass = ''037833100'', nameofissuer = ''APPLE INC''\<rparr>,
         \<lparr>cusip = ''COM'', titleofclass = ''CLASS A'', nameofissuer = ''594918104''\<rparr>,
         \<lparr>cusip = ''5949181'', titleofclass = ''COM'', nameofissuer = ''MICROSOFT CORP''\<rparr>],
      working =
        [\<lparr>cusip = ''037833100'', titleofclass = ''COMMON STOCK'', nameofissuer = ''APPLE INC''\<rparr>,
         \<lparr>cusip = ''594918104'', titleofclass = ''COM'', nameofissuer = ''CLASS A''\<rparr>,
         \<lparr>cusip = ''5949181'', titleofclass = ''COM'', nameofissuer = ''MICROSOFT CORP''\<rparr>]\<rparr> \<and>
   clean_cusips normalise_ascii (\<lambda>st. st \<noteq> FixShortCusips)
       (Inr (TextColumn [''037833100'', ''594918104'']))
     \<lparr>committed =
        [\<lparr>cusip = ''COMMON STOCK'', titleofclass = ''037833100'', nameofissuer = ''APPLE INC''\<rparr>,
         \<lparr>cusip = ''COM'', titleofclass = ''CLASS A'', nameofissuer = ''594918104''\<rparr>,
         \<lparr>cusip = ''5949181'', titleofclass = ''COM'', nameofissuer = ''MICROSOFT CORP''\<rparr>],
      working =
        [\<lparr>cusip = ''COMMON STOCK'', titleofclass = ''037833100'', nameofissuer = ''APPLE INC''\<rparr>,
         \<lparr>cusip = ''COM'', titleofclass = ''CLASS A'', nameofissuer = ''594918104''\<rparr>,
         \<lparr>cusip = ''5949181'', titleofclass = ''COM'', nameofissuer = ''MICROSOFT CORP''\<rparr>]\<rparr>
   = Inl (DatabaseError, \<lparr>committed =
        [\<lparr>cusip = ''COMMON STOCK'', titleofclass = ''037833100'', nameofissuer = ''APPLE INC''\<rparr>,
         \<lparr>cusip = ''COM'', titleofclass = ''CLASS A'', nameofissuer = ''594918104''\<rparr>,
         \<lparr>cusip = ''5949181'', titleofclass = ''COM'', nameofissuer = ''MICROSOFT CORP''\<rparr>],
      working =
        [\<lparr>cusip = ''COMMON STOCK'', titleofclass = ''037833100'', nameofissuer = ''APPLE INC''\<rparr>,
         \<lparr>cusip = ''COM'', titleofclass = ''CLASS A'', nameofissuer = ''594918104''\<rparr>,
         \<lparr>cusip = ''5949181'', titleofclass = ''COM'', nameofissuer = ''MICROSOFT CORP''\<rparr>]\<rparr>)"
  by code_simp

section \<open>Properties of the progress store\<close>

lemma data_save_progress:
  "data (save_progress now t) = (data t)\<lparr>last_updated := now\<rparr>"
  "progress_file (save_progress now t) = Some ((data t)\<lparr>last_updated := now\<rparr>)"
  by (simp_all add: save_progress_def Let_def)

lemma mark_processed_structured:
  "structured_data (data (mark_processed cat year quarter item now t)) =
     (case cat of
        StructuredData \<Rightarrow> (structured_data (data t))
            \<lparr>processed := append_new item (processed (structured_data (data t)))\<rparr>
      | IndividualFilings \<Rightarrow> structured_data (data t))"
  by (simp add: mark_processed_def data_save_progress Let_def split: category.splits)

lemma mark_processed_individual:
  "individual_filings (data (mark_processed cat year quarter item now t)) =
     (case cat of
        StructuredData \<Rightarrow> individual_filings (data t)
      | IndividualFilings \<Rightarrow>
          (individual_filings (data t))
            (format_value year @ ''_'' @ format_value quarter \<mapsto>
               (bucket_at (individual_filings (data t))
                  (format_value year @ ''_'' @ format_value quarter))
               \<lparr>processed := append_new item
                  (processed (bucket_at (individual_filings (data t))
                     (format_value year @ ''_'' @ format_value quarter)))\<rparr>))"
  by (simp add: mark_processed_def data_save_progress Let_def split: category.splits)

lemma mark_failed_structured:
  "structured_data (data (mark_failed cat year quarter item now t)) =
     (case cat of
        StructuredData \<Rightarrow> (structured_data (data t))
            \<lparr>failed := append_new item (failed (structured_data (data t)))\<rparr>
      | IndividualFilings \<Rightarrow> structured_data (data t))"
  by (simp add: mark_failed_def data_save_progress Let_def split: category.splits)

lemma mark_failed_individual:
  "individual_filings (data (mark_failed cat year quarter item now t)) =
     (case cat of
        StructuredData \<Rightarrow> individual_filings (data t)
      | IndividualFilings \<Rightarrow>
          (individual_filings (data t))
            (format_value year @ ''_'' @ format_value quarter \<mapsto>
               (bucket_at (individual_filings (data t))
                  (format_value year @ ''_'' @ format_value quarter))
               \<lparr>failed := append_new item
                  (failed (bucket_at (individual_filings (data t))
                     (format_value year @ ''_'' @ format_value quarter)))\<rparr>))"
  by (simp add: mark_failed_def data_save_progress Let_def split: category.splits)

lemma key_mismatch: "a @ ''_'' @ b \<noteq> a @ ''_Q'' @ b"
  by simp

lemma append_new_extends: "\<exists>ys. append_new item xs = xs @ ys"
  by (simp add: append_new_def)

lemma append_new_member: "item \<in> set (append_new item xs)"
  by (simp add: append_new_def)

lemma processed_at_apply_call:
  "\<exists>ys. processed_at (apply_call c t) key = processed_at t key @ ys"
proof (cases c)
  case (MarkProcessed cat year quarter item now)
  show ?thesis
  proof (cases cat)
    case StructuredData
    then show ?thesis
      using MarkProcessed by (simp add: processed_at_def mark_processed_individual)
  next
    case IndividualFilings
    then show ?thesis
      using MarkProcessed append_new_extends
      by (simp add: processed_at_def mark_processed_individual bucket_at_def)
  qed
next
  case (MarkFailed cat year quarter item now)
  show ?thesis
  proof (cases cat)
    case StructuredData
    then show ?thesis
      using MarkFailed by (simp add: processed_at_def mark_failed_individual)
  next
    case IndividualFilings
    then show ?thesis
      using MarkFailed
      by (simp add: processed_at_def mark_failed_individual bucket_at_def)
  qed
qed

lemma structured_apply_call:
  "\<exists>ys. processed (structured_data (data (apply_call c t)))
          = processed (structured_data (data t)) @ ys"
proof (cases c)
  case (MarkProcessed cat year quarter item now)
  then show ?thesis
    using append_new_extends
    by (cases cat) (simp_all add: mark_processed_structured)
next
  case (MarkFailed cat year quarter item now)
  then show ?thesis
    by (cases cat) (simp_all add: mark_failed_structured)
qed

lemma get_processed_count_alt:
  "get_processed_count cat year quarter t =
     (case cat of
        StructuredData \<Rightarrow> length (processed (structured_data (data t)))
      | IndividualFilings \<Rightarrow>
          length (processed_at t (format_value year @ ''_Q'' @ format_value quarter)))"
  by (simp add: get_processed_count_def processed_at_def bucket_at_def Let_def
      split: category.splits option.splits)

lemma count_apply_call:
  "get_processed_count cat year quarter t \<le> get_processed_count cat year quarter (apply_call c t)"
proof (cases cat)
  case StructuredData
  obtain ys where "processed (structured_data (data (apply_call c t)))
          = processed (structured_data (data t)) @ ys"
    using structured_apply_call by blast
  then show ?thesis using StructuredData by (simp add: get_processed_count_alt)
next
  case IndividualFilings
  obtain ys where "processed_at (apply_call c t) (format_value year @ ''_Q'' @ format_value quarter)
      = processed_at t (format_value year @ ''_Q'' @ format_value quarter) @ ys"
    using processed_at_apply_call by blast
  then show ?thesis using IndividualFilings by (simp add: get_processed_count_alt)
qed

lemma count_run_calls:
  "get_processed_count cat year quarter t \<le> get_processed_count cat year quarter (run_calls cs t)"
proof (induction cs arbitrary: t)
  case Nil
  then show ?case by simp
next
  case (Cons c cs)
  have "get_processed_count cat year quarter t
          \<le> get_processed_count cat year quarter (apply_call c t)"
    by (rule count_apply_call)
  also have "\<dots> \<le> get_processed_count cat year quarter (run_calls cs (apply_call c t))"
    by (rule Cons.IH)
  finally show ?case by simp
qed

lemma reload_apply_call:
  "load_progress (progress_file (apply_call c t)) now' = data (apply_call c t)"
  by (cases c) (simp_all add: mark_processed_def mark_failed_def Let_def data_save_progress
      load_progress_def)

lemma reload_run_calls:
  "processed_items (load_progress (progress_file (run_calls cs (new_tracker file now))) now')
     = processed_items (data (run_calls cs (new_tracker file now)))"
proof (cases cs rule: rev_cases)
  case Nil
  then show ?thesis
    by (simp add: new_tracker_def load_progress_def processed_items_def split: option.splits)
next
  case (snoc cs' c)
  have "run_calls (cs' @ [c]) t = apply_call c (run_calls cs' t)" for t
    by (induction cs' arbitrary: t) simp_all
  then show ?thesis
    using snoc reload_apply_call by simp
qed

text \<open>
  Claim C6. For every call \<open>mark_processed\<close> or \<open>mark_failed\<close>, and for every sequence
  of such calls, \<open>get_processed_count\<close> does not decrease, whatever category, year and
  quarter it is asked for: a call only appends to a processed list, the structured one
  and the one under every key. After every call the file reloads to exactly the
  dictionary in memory, and after any sequence of calls on a freshly opened store the
  reloaded file has the same processed items as the store in memory.
\<close>

theorem progress_monotone:
  "get_processed_count cat year quarter t
     \<le> get_processed_count cat year quarter (apply_call c t) \<and>
   get_processed_count cat year quarter t
     \<le> get_processed_count cat year quarter (run_calls cs t) \<and>
   (\<exists>ys. processed (structured_data (data (apply_call c t)))
          = processed (structured_data (data t)) @ ys) \<and>
   (\<exists>ys. processed_at (apply_call c t) key = processed_at t key @ ys) \<and>
   load_progress (progress_file (apply_call c t)) now' = data (apply_call c t) \<and>
   processed_items (load_progress (progress_file (run_calls cs (new_tracker file now))) now')
     = processed_items (data (run_calls cs (new_tracker file now)))"
  by (intro conjI count_apply_call count_run_calls structured_apply_call
      processed_at_apply_call reload_apply_call reload_run_calls)

text \<open>
  Claim C4. For the structured category, \<open>is_processed\<close> after \<open>mark_processed\<close> with
  the same arguments is true. For the individual filings, \<open>mark_processed\<close> writes under
  the key year_quarter and \<open>is_processed\<close> reads the key year_Qquarter, so with the same
  arguments the lookup returns what it returned before the mark: on a new store, false.
\<close>

theorem mark_then_lookup:
  "is_processed StructuredData year quarter item
     (mark_processed StructuredData year quarter item now t) \<and>
   is_processed IndividualFilings year quarter item
     (mark_processed IndividualFilings year quarter item now t)
     = is_processed IndividualFilings year quarter item t \<and>
   \<not> is_processed IndividualFilings (PyInt 2024) (PyInt 1) ''0001.txt''
       (mark_processed IndividualFilings (PyInt 2024) (PyInt 1) ''0001.txt'' ''t1''
          (new_tracker None ''t0''))"
proof (intro conjI)
  show "is_processed StructuredData year quarter item
     (mark_processed StructuredData year quarter item now t)"
    by (simp add: is_processed_def mark_processed_structured append_new_member)
  show same: "is_processed IndividualFilings year quarter item
     (mark_processed IndividualFilings year quarter item now t)
     = is_processed IndividualFilings year quarter item t" for year quarter item now t
    using key_mismatch [of "format_value year" "format_value quarter"]
    by (simp add: is_processed_def mark_processed_individual Let_def del: append_Cons)
  show "\<not> is_processed IndividualFilings (PyInt 2024) (PyInt 1) ''0001.txt''
       (mark_processed IndividualFilings (PyInt 2024) (PyInt 1) ''0001.txt'' ''t1''
          (new_tracker None ''t0''))"
    unfolding same
    by (simp add: is_processed_def new_tracker_def load_progress_def)
qed

section \<open>Properties of the ingestion worker\<close>

lemma insert_filing_duplicate:
  "acc \<in> accession_numbers d \<Longrightarrow> insert_filing n acc cols d = (None, d)"
  by (simp add: insert_filing_def accession_numbers_def)

lemma insert_filing_new:
  "acc \<notin> accession_numbers d \<Longrightarrow>
     insert_filing n acc cols d = (Some n, d\<lparr>filings := filings d @ [(n, acc, cols)]\<rparr>)"
  by (simp add: insert_filing_def accession_numbers_def)

lemma process_duplicate:
  assumes parsed: "parsed = Inr (Some (acc, cols), hs)" and dup: "acc \<in> accession_numbers db"
  shows "fst (process_individual_filing parsed connect_ok db_ok new_id dir fp fn db) = db"
proof (cases "connect_ok \<and> db_ok InsertFiling")
  case False
  show ?thesis
  proof (cases connect_ok)
    case no_conn: False
    then show ?thesis using parsed by (simp add: process_individual_filing_def)
  next
    case conn: True
    then have "\<not> db_ok InsertFiling" using False by simp
    then show ?thesis
      using parsed conn
      by (simp add: process_individual_filing_def worker_body_def Let_def rollback_def)
  qed
next
  case True
  show ?thesis
  proof (cases "progress_event dir fp fn")
    case (Inl e)
    then show ?thesis
      using True parsed dup
      by (simp add: process_individual_filing_def worker_body_def insert_filing_duplicate
          Let_def commit_def rollback_def)
  next
    case (Inr ev)
    then show ?thesis
      using True parsed dup
      by (simp add: process_individual_filing_def worker_body_def insert_filing_duplicate
          Let_def commit_def rollback_def)
  qed
qed

lemma process_new:
  assumes parsed: "parsed = Inr (Some (acc, cols), hs)" and new: "acc \<notin> accession_numbers db"
    and ok: "connect_ok" "db_ok InsertFiling" "db_ok InsertHoldings"
  shows "fst (process_individual_filing parsed connect_ok db_ok new_id dir fp fn db)
           = \<lparr>filings = filings db @ [(new_id, acc, cols)],
              holdings = holdings db @ map (\<lambda>h. (new_id, h)) hs\<rparr>"
proof (cases "progress_event dir fp fn")
  case (Inl e)
  then show ?thesis
    using ok parsed new
    by (simp add: process_individual_filing_def worker_body_def insert_filing_new
        cur_execute_def insert_holdings_def Let_def commit_def rollback_def)
next
  case (Inr ev)
  then show ?thesis
    using ok parsed new
    by (simp add: process_individual_filing_def worker_body_def insert_filing_new
        cur_execute_def insert_holdings_def Let_def commit_def rollback_def)
qed

lemma process_failed:
  assumes parsed: "parsed = Inr (Some (acc, cols), hs)"
    and bad: "\<not> (connect_ok \<and> db_ok InsertFiling \<and> db_ok InsertHoldings)"
    and new: "acc \<notin> accession_numbers db"
  shows "fst (process_individual_filing parsed connect_ok db_ok new_id dir fp fn db) = db"
proof (cases "connect_ok \<and> db_ok InsertFiling")
  case False
  show ?thesis
  proof (cases connect_ok)
    case no_conn: False
    then show ?thesis using parsed by (simp add: process_individual_filing_def)
  next
    case conn: True
    then have "\<not> db_ok InsertFiling" using False by simp
    then show ?thesis
      using parsed conn
      by (simp add: process_individual_filing_def worker_body_def Let_def rollback_def)
  qed
next
  case True
  then have no: "\<not> db_ok InsertHoldings" using bad by simp
  let ?conn = "\<lparr>committed = db, working = db\<rparr>"
  have body: "worker_body db_ok new_id (acc, cols) hs dir fp fn ?conn =
      (?conn\<lparr>working := db\<lparr>filings := filings db @ [(new_id, acc, cols)]\<rparr>\<rparr>, [], Some DatabaseError)"
    using True no new
    by (simp add: worker_body_def insert_filing_new Let_def cur_execute_def)
  show ?thesis
    using True parsed
    by (simp add: process_individual_filing_def Let_def body rollback_def)
qed

lemma process_cases:
  "fst (process_individual_filing parsed connect_ok db_ok new_id dir fp fn db) = db \<or>
   (\<exists>acc cols hs. parsed = Inr (Some (acc, cols), hs) \<and> acc \<notin> accession_numbers db \<and>
      fst (process_individual_filing parsed connect_ok db_ok new_id dir fp fn db)
        = \<lparr>filings = filings db @ [(new_id, acc, cols)],
           holdings = holdings db @ map (\<lambda>h. (new_id, h)) hs\<rparr>)"
proof (cases parsed)
  case (Inl e)
  then show ?thesis by (simp add: process_individual_filing_def)
next
  case (Inr p)
  obtain fd hs where p: "p = (fd, hs)" by (cases p)
  show ?thesis
  proof (cases fd)
    case None
    then show ?thesis using Inr p by (simp add: process_individual_filing_def)
  next
    case (Some filing_data)
    obtain acc cols where fd: "filing_data = (acc, cols)" by (cases filing_data)
    have parsed: "parsed = Inr (Some (acc, cols), hs)" using Inr p Some fd by simp
    show ?thesis
    proof (cases "acc \<in> accession_numbers db")
      case True
      have "fst (process_individual_filing parsed connect_ok db_ok new_id dir fp fn db) = db"
        by (rule process_duplicate [OF parsed True])
      then show ?thesis by (rule disjI1)
    next
      case False
      show ?thesis
      proof (cases "connect_ok \<and> db_ok InsertFiling \<and> db_ok InsertHoldings")
        case True
        then have "fst (process_individual_filing parsed connect_ok db_ok new_id dir fp fn db)
           = \<lparr>filings = filings db @ [(new_id, acc, cols)],
              holdings = holdings db @ map (\<lambda>h. (new_id, h)) hs\<rparr>"
          using process_new [OF parsed False] by simp
        then show ?thesis using parsed False by blast
      next
        case bad: False
        have "fst (process_individual_filing parsed connect_ok db_ok new_id dir fp fn db) = db"
          using process_failed [OF parsed bad False] .
        then show ?thesis by (rule disjI1)
      qed
    qed
  qed
qed

text \<open>
  Claim C7. When the accession number of the parsed filing is already in \<open>filings\<close>,
  the insert returns no id and the worker leaves both tables as they were: no holding row
  is inserted. When it is new and the database accepts both inserts, the filing row is
  added with the generated id and every holding of the document is added with that id
  attached. In every run that changes \<open>holdings\<close>, the filing was new and the added rows
  are exactly the document's holdings with the new filing's id.
\<close>

theorem holdings_only_for_new_filing:
  "(parsed = Inr (Some (acc, cols), hs) \<and> acc \<in> accession_numbers db \<longrightarrow>
      fst (process_individual_filing parsed connect_ok db_ok new_id dir_name file_path filename db)
        = db) \<and>
   (parsed = Inr (Some (acc, cols), hs) \<and> acc \<notin> accession_numbers db \<and> connect_ok \<and>
    db_ok InsertFiling \<and> db_ok InsertHoldings \<longrightarrow>
      fst (process_individual_filing parsed connect_ok db_ok new_id dir_name file_path filename db)
        = \<lparr>filings = filings db @ [(new_id, acc, cols)],
           holdings = holdings db @ map (\<lambda>h. (new_id, h)) hs\<rparr>) \<and>
   (holdings (fst (process_individual_filing parsed connect_ok db_ok new_id dir_name file_path
        filename db)) \<noteq> holdings db \<longrightarrow>
      (\<exists>acc cols hs. parsed = Inr (Some (acc, cols), hs) \<and> acc \<notin> accession_numbers db \<and>
         fst (process_individual_filing parsed connect_ok db_ok new_id dir_name file_path
           filename db)
           = \<lparr>filings = filings db @ [(new_id, acc, cols)],
              holdings = holdings db @ map (\<lambda>h. (new_id, h)) hs\<rparr>))"
proof (intro conjI impI)
  assume "parsed = Inr (Some (acc, cols), hs) \<and> acc \<in> accession_numbers db"
  then show "fst (process_individual_filing parsed connect_ok db_ok new_id dir_name file_path
      filename db) = db"
    by (simp add: process_duplicate)
next
  assume "parsed = Inr (Some (acc, cols), hs) \<and> acc \<notin> accession_numbers db \<and> connect_ok \<and>
    db_ok InsertFiling \<and> db_ok InsertHoldings"
  then show "fst (process_individual_filing parsed connect_ok db_ok new_id dir_name file_path
      filename db)
        = \<lparr>filings = filings db @ [(new_id, acc, cols)],
           holdings = holdings db @ map (\<lambda>h. (new_id, h)) hs\<rparr>"
    by (simp add: process_new)
next
  assume "holdings (fst (process_individual_filing parsed connect_ok db_ok new_id dir_name
      file_path filename db)) \<noteq> holdings db"
  then show "\<exists>acc cols hs. parsed = Inr (Some (acc, cols), hs) \<and> acc \<notin> accession_numbers db \<and>
         fst (process_individual_filing parsed connect_ok db_ok new_id dir_name file_path
           filename db)
           = \<lparr>filings = filings db @ [(new_id, acc, cols)],
              holdings = holdings db @ map (\<lambda>h. (new_id, h)) hs\<rparr>"
    using process_cases [of parsed connect_ok db_ok new_id dir_name file_path filename db]
    by (elim disjE) simp_all
qed


theorem holdings_only_for_new_filing_witness:
  "fst (process_individual_filing (Inr (Some (''0001-23-000009'', ''13F-HR''), [''AAPL'', ''MSFT'']))
      True (\<lambda>st. True) 7 ''2024_Q1'' ''filings/2024_Q1/a.txt'' ''a.txt''
      \<lparr>filings = [(3, ''0001-23-000009'', ''13F-HR'')], holdings = [(3, ''IBM'')]\<rparr>)
     = \<lparr>filings = [(3, ''0001-23-000009'', ''13F-HR'')], holdings = [(3, ''IBM'')]\<rparr> \<and>
   fst (process_individual_filing (Inr (Some (''0001-24-000001'', ''13F-HR''), [''AAPL'', ''MSFT'']))
      True (\<lambda>st. True) 7 ''2024_Q1'' ''filings/2024_Q1/a.txt'' ''a.txt''
      \<lparr>filings = [(3, ''0001-23-000009'', ''13F-HR'')], holdings = [(3, ''IBM'')]\<rparr>)
     = \<lparr>filings = [(3, ''0001-23-000009'', ''13F-HR''), (7, ''0001-24-000001'', ''13F-HR'')],
        holdings = [(3, ''IBM''), (7, ''AAPL''), (7, ''MSFT'')]\<rparr>"
proof -
  let ?db = "\<lparr>filings = [(3::nat, ''0001-23-000009'', ''13F-HR'')], holdings = [(3::nat, ''IBM'')]\<rparr>"
  have old: "''0001-23-000009'' \<in> accession_numbers ?db"
    by (simp add: accession_numbers_def)
  have new: "''0001-24-000001'' \<notin> accession_numbers ?db"
    by (simp add: accession_numbers_def)
  have rows: "\<lparr>filings = filings ?db @ [(7, ''0001-24-000001'', ''13F-HR'')],
               holdings = holdings ?db @ map (\<lambda>h. (7, h)) [''AAPL'', ''MSFT'']\<rparr>
      = \<lparr>filings = [(3, ''0001-23-000009'', ''13F-HR''), (7, ''0001-24-000001'', ''13F-HR'')],
        holdings = [(3, ''IBM''), (7, ''AAPL''), (7, ''MSFT'')]\<rparr>"
    by simp
  have a: "fst (process_individual_filing
        (Inr (Some (''0001-23-000009'', ''13F-HR''), [''AAPL'', ''MSFT'']))
        True (\<lambda>st. True) 7 ''2024_Q1'' ''filings/2024_Q1/a.txt'' ''a.txt'' ?db) = ?db"
    using old
      holdings_only_for_new_filing [of "Inr (Some (''0001-23-000009'', ''13F-HR''), [''AAPL'', ''MSFT''])"
        "''0001-23-000009''" "''13F-HR''" "[''AAPL'', ''MSFT'']" ?db True "\<lambda>st. True" 7
        "''2024_Q1''" "''filings/2024_Q1/a.txt''" "''a.txt''"]
    by blast
  have b: "fst (process_individual_filing
        (Inr (Some (''0001-24-000001'', ''13F-HR''), [''AAPL'', ''MSFT'']))
        True (\<lambda>st. True) 7 ''2024_Q1'' ''filings/2024_Q1/a.txt'' ''a.txt'' ?db)
      = \<lparr>filings = filings ?db @ [(7, ''0001-24-000001'', ''13F-HR'')],
         holdings = holdings ?db @ map (\<lambda>h. (7, h)) [''AAPL'', ''MSFT'']\<rparr>"
    using new
      holdings_only_for_new_filing [of "Inr (Some (''0001-24-000001'', ''13F-HR''), [''AAPL'', ''MSFT''])"
        "''0001-24-000001''" "''13F-HR''" "[''AAPL'', ''MSFT'']" ?db True "\<lambda>st. True" 7
        "''2024_Q1''" "''filings/2024_Q1/a.txt''" "''a.txt''"]
    by blast
  show ?thesis
    using a b unfolding rows by (rule conjI)
qed

end
